theory Spec2Isabelle
  imports Complex_Main "HOL-Library.Word" "HOL-Library.Multiset"
begin

section \<open>Canonical transactions\<close>

text \<open>
  Modelled from the spec: the package \<^verbatim>\<open>internal/domain\<close> with the types
  \<^verbatim>\<open>Transaction\<close> and \<^verbatim>\<open>Direction\<close> is imported by every source file but is
  not part of the sources at hand. The record has the fields of the canonical
  transaction, under the names and at the types the parsers, the merge step and
  \<^verbatim>\<open>main\<close> use:
  \<^item> \<^verbatim>\<open>TxDate\<close> is a \<^verbatim>\<open>time.Time\<close>; only \<^verbatim>\<open>After\<close> is applied to it,
    so an instant is an integer (nanoseconds on the time line) and \<^verbatim>\<open>a.After(b)\<close>
    is \<open>b < a\<close>;
  \<^item> \<^verbatim>\<open>TxAmount\<close> is a \<^verbatim>\<open>float64\<close>: a finite value, an infinity or NaN;
  \<^item> \<^verbatim>\<open>StatementAccountNumber\<close> is a \<^verbatim>\<open>*string\<close>: \<open>None\<close> is the nil pointer;
  \<^item> \<^verbatim>\<open>AccountID\<close> is an \<^verbatim>\<open>int\<close>, 64 bits wide on the platforms the
    program is built for, so \<^verbatim>\<open>int(account.Id)\<close> of an \<^verbatim>\<open>int64\<close> is the identity.
  Go strings are byte sequences and \<^verbatim>\<open>len\<close> counts bytes: \<^typ>\<open>string\<close>.
\<close>

datatype Direction = In | Out

datatype float64 = Finite real | PosInf | NegInf | NaN

record Transaction =
  TxDate :: int
  TxAmount :: float64
  TxCurrency :: string
  TxDirection :: Direction
  TxDesc :: string
  StatementAccountNumber :: "string option"
  StatementAccountType :: string
  StatementAccountName :: string
  SourceFilePath :: string
  AccountID :: "64 word"

section \<open>Merging the CSV export with the statements\<close>

text \<open>\<^verbatim>\<open>GetLast4Digits\<close>: the last four bytes, or the whole string when shorter.\<close>

definition GetLast4Digits :: "string \<Rightarrow> string" where
  "GetLast4Digits accountNumber =
     (if 4 \<le> length accountNumber
      then drop (length accountNumber - 4) accountNumber
      else accountNumber)"

text \<open>
  \<^verbatim>\<open>strings.HasSuffix(s, suffix)\<close> of the standard library is
  \<^verbatim>\<open>len(s) >= len(suffix) && s[len(s)-len(suffix):] == suffix\<close>.
\<close>

definition HasSuffix :: "string \<Rightarrow> string \<Rightarrow> bool" where
  "HasSuffix s suf \<longleftrightarrow> length suf \<le> length s \<and> drop (length s - length suf) s = suf"

definition MatchesAccount :: "Transaction \<Rightarrow> string \<Rightarrow> bool" where
  "MatchesAccount tx last4 =
     (case StatementAccountNumber tx of
        None \<Rightarrow> False
      | Some accountNum \<Rightarrow> HasSuffix accountNum last4 \<or> accountNum = last4)"

text \<open>
  \<^verbatim>\<open>FindLatestTransactionDate\<close>: the loop carries \<^verbatim>\<open>latest\<close>, a pointer that is
  nil until the first matching transaction is met.
\<close>

fun FindLatest_loop :: "Transaction list \<Rightarrow> string \<Rightarrow> int option \<Rightarrow> int option" where
  "FindLatest_loop [] accountLast4 latest = latest"
| "FindLatest_loop (tx # txs) accountLast4 latest =
     FindLatest_loop txs accountLast4
       (if MatchesAccount tx accountLast4
        then (case latest of
                None \<Rightarrow> Some (TxDate tx)
              | Some l \<Rightarrow> if l < TxDate tx then Some (TxDate tx) else latest)
        else latest)"

definition FindLatestTransactionDate :: "Transaction list \<Rightarrow> string \<Rightarrow> int option" where
  "FindLatestTransactionDate transactions accountLast4 =
     FindLatest_loop transactions accountLast4 None"

text \<open>
  The first loop of \<^verbatim>\<open>MergeCSVWithStatements\<close> fills the Go map
  \<^verbatim>\<open>csvByAccount\<close>; a transaction without account number is skipped by the
  \<^verbatim>\<open>continue\<close>. Reading a missing key of a Go map of slices gives the nil slice.
\<close>

definition slice_at :: "(string \<rightharpoonup> 'a list) \<Rightarrow> string \<Rightarrow> 'a list" where
  "slice_at m k = (case m k of None \<Rightarrow> [] | Some xs \<Rightarrow> xs)"

fun csvByAccount_loop ::
  "Transaction list \<Rightarrow> (string \<rightharpoonup> Transaction list) \<Rightarrow> (string \<rightharpoonup> Transaction list)" where
  "csvByAccount_loop [] m = m"
| "csvByAccount_loop (tx # txs) m =
     (case StatementAccountNumber tx of
        None \<Rightarrow> csvByAccount_loop txs m
      | Some n \<Rightarrow>
          csvByAccount_loop txs
            (m(GetLast4Digits n \<mapsto> slice_at m (GetLast4Digits n) @ [tx])))"

definition csvByAccount :: "Transaction list \<Rightarrow> (string \<rightharpoonup> Transaction list)" where
  "csvByAccount csvTxs = csvByAccount_loop csvTxs Map.empty"

text \<open>
  Go leaves the order in which \<^verbatim>\<open>range\<close> visits the keys of a map unspecified, and
  it may differ from one loop to the next. Each \<^verbatim>\<open>range\<close> over a map therefore takes
  the order of its visit as an argument: a list that holds every key of the map once.
\<close>

definition range_order :: "('k \<rightharpoonup> 'v) \<Rightarrow> 'k list \<Rightarrow> bool" where
  "range_order m ks \<longleftrightarrow> distinct ks \<and> set ks = dom m"

text \<open>The second loop: a cutoff (possibly nil) for each key of \<^verbatim>\<open>csvByAccount\<close>.\<close>

definition cutoffDates :: "string list \<Rightarrow> Transaction list \<Rightarrow> (string \<rightharpoonup> int option)" where
  "cutoffDates ks statementTxs =
     fold (\<lambda>last4 cd. cd(last4 \<mapsto> FindLatestTransactionDate statementTxs last4)) ks Map.empty"

text \<open>Reading a missing key of a map of pointers gives nil.\<close>

definition cutoff_at :: "(string \<rightharpoonup> int option) \<Rightarrow> string \<Rightarrow> int option" where
  "cutoff_at cd k = (case cd k of None \<Rightarrow> None | Some c \<Rightarrow> c)"

text \<open>The test \<^verbatim>\<open>cutoff == nil || tx.TxDate.After(*cutoff)\<close>.\<close>

definition after_cutoff :: "int option \<Rightarrow> Transaction \<Rightarrow> bool" where
  "after_cutoff cutoff tx = (case cutoff of None \<Rightarrow> True | Some c \<Rightarrow> c < TxDate tx)"

text \<open>The third loop, over the groups in the order \<open>ks\<close>, appends the kept transactions.\<close>

definition newTransactions ::
  "string list \<Rightarrow> (string \<rightharpoonup> Transaction list) \<Rightarrow> (string \<rightharpoonup> int option) \<Rightarrow> Transaction list" where
  "newTransactions ks groups cd =
     concat (map (\<lambda>last4. filter (after_cutoff (cutoff_at cd last4)) (slice_at groups last4)) ks)"

text \<open>
  \<^verbatim>\<open>MergeCSVWithStatements\<close>; \<open>ks1\<close> is the order of the loop that computes the
  cutoffs and \<open>ks2\<close> the order of the loop that filters.
\<close>

definition MergeCSVWithStatements ::
  "string list \<Rightarrow> string list \<Rightarrow> Transaction list \<Rightarrow> Transaction list \<Rightarrow> Transaction list" where
  "MergeCSVWithStatements ks1 ks2 statementTxs csvTxs =
     statementTxs @ newTransactions ks2 (csvByAccount csvTxs) (cutoffDates ks1 statementTxs)"

text \<open>The group a secondary transaction falls into, if any.\<close>

definition group_key :: "Transaction \<Rightarrow> string option" where
  "group_key tx = map_option GetLast4Digits (StatementAccountNumber tx)"

text \<open>The dates of the primary transactions that match a suffix.\<close>

definition matching_dates :: "Transaction list \<Rightarrow> string \<Rightarrow> int set" where
  "matching_dates statementTxs last4 =
     set (map TxDate (filter (\<lambda>p. MatchesAccount p last4) statementTxs))"

section \<open>Strings of the standard library\<close>

text \<open>
  \<^verbatim>\<open>strings.HasPrefix(s, prefix)\<close> is
  \<^verbatim>\<open>len(s) >= len(prefix) && s[:len(prefix)] == prefix\<close>.
\<close>

definition HasPrefix :: "string \<Rightarrow> string \<Rightarrow> bool" where
  "HasPrefix s pre \<longleftrightarrow> length pre \<le> length s \<and> take (length pre) s = pre"

text \<open>
  \<^verbatim>\<open>strings.TrimSpace\<close> removes the leading and the trailing runes for which
  \<^verbatim>\<open>unicode.IsSpace\<close> holds: U+0009 to U+000D, U+0020, U+0085, U+00A0, U+1680,
  U+2000 to U+200A, U+2028, U+2029, U+202F, U+205F and U+3000. A Go string is a byte
  sequence, and a rune is read from it by UTF-8 decoding (forwards at the front,
  backwards at the end); a byte that does not start a well-formed encoding decodes to
  the error rune, which is no space. So a string starts (ends) with a space rune
  exactly when it starts (ends) with the UTF-8 encoding of one, and the list below
  holds these encodings.
\<close>

definition space_runes :: "string list" where
  "space_runes =
     [[CHR 0x09], [CHR 0x0A], [CHR 0x0B], [CHR 0x0C], [CHR 0x0D], [CHR 0x20],
      [CHR 0xC2, CHR 0x85], [CHR 0xC2, CHR 0xA0],
      [CHR 0xE1, CHR 0x9A, CHR 0x80],
      [CHR 0xE2, CHR 0x80, CHR 0x80], [CHR 0xE2, CHR 0x80, CHR 0x81],
      [CHR 0xE2, CHR 0x80, CHR 0x82], [CHR 0xE2, CHR 0x80, CHR 0x83],
      [CHR 0xE2, CHR 0x80, CHR 0x84], [CHR 0xE2, CHR 0x80, CHR 0x85],
      [CHR 0xE2, CHR 0x80, CHR 0x86], [CHR 0xE2, CHR 0x80, CHR 0x87],
      [CHR 0xE2, CHR 0x80, CHR 0x88], [CHR 0xE2, CHR 0x80, CHR 0x89],
      [CHR 0xE2, CHR 0x80, CHR 0x8A],
      [CHR 0xE2, CHR 0x80, CHR 0xA8], [CHR 0xE2, CHR 0x80, CHR 0xA9],
      [CHR 0xE2, CHR 0x80, CHR 0xAF], [CHR 0xE2, CHR 0x81, CHR 0x9F],
      [CHR 0xE3, CHR 0x80, CHR 0x80]]"

text \<open>
  \<open>strip_runes ws s\<close> removes from the front of \<open>s\<close> every leading occurrence of a
  byte sequence of \<open>ws\<close>, as the scan of \<^verbatim>\<open>TrimLeftFunc\<close> does rune by rune.
\<close>

definition starts_with_any :: "string list \<Rightarrow> string \<Rightarrow> bool" where
  "starts_with_any ws s = list_ex (\<lambda>w. w \<noteq> [] \<and> HasPrefix s w) ws"

function strip_runes :: "string list \<Rightarrow> string \<Rightarrow> string" where
  "strip_runes ws s =
     (case find (\<lambda>w. w \<noteq> [] \<and> HasPrefix s w) ws of
        None \<Rightarrow> s
      | Some w \<Rightarrow> strip_runes ws (drop (length w) s))"
  by pat_completeness auto

termination
proof (relation "measure (\<lambda>(ws, s). length s)")
  show "wf (measure (\<lambda>(ws, s). length s))" by simp
next
  fix ws :: "string list" and s w :: string
  assume "find (\<lambda>w. w \<noteq> [] \<and> HasPrefix s w) ws = Some w"
  then have "w \<noteq> []" and "HasPrefix s w"
    by (auto simp: find_Some_iff)
  then have "0 < length w" and "length w \<le> length s"
    by (simp_all add: HasPrefix_def)
  then have "length s - length w < length s"
    by linarith
  then show "((ws, drop (length w) s), (ws, s)) \<in> measure (\<lambda>(ws, s). length s)"
    by simp
qed

definition TrimLeftSpace :: "string \<Rightarrow> string" where
  "TrimLeftSpace s = strip_runes space_runes s"

text \<open>Trimming at the end is trimming the reversed string by the reversed encodings.\<close>

definition TrimRightSpace :: "string \<Rightarrow> string" where
  "TrimRightSpace s = rev (strip_runes (map rev space_runes) (rev s))"

definition TrimSpace :: "string \<Rightarrow> string" where
  "TrimSpace s = TrimRightSpace (TrimLeftSpace s)"

definition leading_space :: "string \<Rightarrow> bool" where
  "leading_space s = starts_with_any space_runes s"

definition trailing_space :: "string \<Rightarrow> bool" where
  "trailing_space s = starts_with_any (map rev space_runes) (rev s)"

text \<open>
  \<^verbatim>\<open>strings.SplitN(s, sep, 2)\<close> for a separator of one byte: the parts before and
  after the first separator, or the string alone when it has none.
\<close>

definition SplitN2 :: "string \<Rightarrow> char \<Rightarrow> string list" where
  "SplitN2 s sep =
     (if sep \<in> set s
      then [takeWhile (\<lambda>c. c \<noteq> sep) s, tl (dropWhile (\<lambda>c. c \<noteq> sep) s)]
      else [s])"

section \<open>The mapping store\<close>

text \<open>
  \<^verbatim>\<open>Store\<close> holds the path of its file and the Go map \<^verbatim>\<open>Mappings\<close>; reading a
  missing key of a map of strings gives the empty string (\<open>FindMapping\<close> below). The
  file itself is outside of the store: its content is a \<^typ>\<open>string option\<close>, \<open>None\<close> when
  the file does not exist.
\<close>

record Store =
  filePath :: string
  Mappings :: "string \<rightharpoonup> string"

datatype store_error = OpenFailed | ReadFailed | CreateFailed | WriteFailed

definition newline :: char where
  "newline = CHR 0x0A"

text \<open>
  \<^verbatim>\<open>Load\<close> reads the file with a \<^verbatim>\<open>bufio.Scanner\<close> and its default split
  function \<^verbatim>\<open>ScanLines\<close>: the tokens are the lines, ended by a newline that is not
  part of the token; a last line without newline is a token unless it is empty.
  \<open>split_lines\<close> gives the lines before \<^verbatim>\<open>dropCR\<close>, which removes one trailing
  carriage return from each.
\<close>

fun split_lines :: "string \<Rightarrow> string \<Rightarrow> string list" where
  "split_lines [] cur = (if cur = [] then [] else [cur])"
| "split_lines (c # cs) cur =
     (if c = newline then cur # split_lines cs [] else split_lines cs (cur @ [c]))"

definition dropCR :: "string \<Rightarrow> string" where
  "dropCR data = (if data \<noteq> [] \<and> last data = CHR 0x0D then butlast data else data)"

text \<open>
  The scanner is used with its default buffer, which grows to \<^verbatim>\<open>MaxScanTokenSize\<close>
  bytes and no further. A line needs room for its bytes and its newline; when the
  buffer is full and holds no newline, \<^verbatim>\<open>Scan\<close> returns false and \<^verbatim>\<open>Err\<close> is
  \<^verbatim>\<open>bufio.ErrTooLong\<close>, which \<^verbatim>\<open>Load\<close> returns as a failure to read. The lines
  read before are in the map by then.
\<close>

definition MaxScanTokenSize :: nat where
  "MaxScanTokenSize = 64 * 1024"

text \<open>The body of the loop of \<^verbatim>\<open>Load\<close> for one line.\<close>

definition Load_line :: "string \<Rightarrow> (string \<rightharpoonup> string) \<Rightarrow> (string \<rightharpoonup> string)" where
  "Load_line text m =
     (let line = TrimSpace text in
      if line = [] \<or> HasPrefix line ''#'' then m
      else (case SplitN2 line (CHR '':'') of
              [a, b] \<Rightarrow> m(TrimSpace a \<mapsto> TrimSpace b)
            | _ \<Rightarrow> m))"

fun Load_loop ::
  "string list \<Rightarrow> (string \<rightharpoonup> string) \<Rightarrow> (string \<rightharpoonup> string) \<times> store_error option" where
  "Load_loop [] m = (m, None)"
| "Load_loop (raw # rest) m =
     (if MaxScanTokenSize \<le> length raw then (m, Some ReadFailed)
      else Load_loop rest (Load_line (dropCR raw) m))"

definition Load :: "Store \<Rightarrow> string option \<Rightarrow> Store \<times> store_error option" where
  "Load s disk =
     (case disk of
        None \<Rightarrow> (s, Some OpenFailed)
      | Some content \<Rightarrow>
          (case Load_loop (split_lines content []) (Mappings s) of
             (m, err) \<Rightarrow> (s\<lparr>Mappings := m\<rparr>, err)))"

text \<open>\<^verbatim>\<open>NewStore\<close> starts from an empty map and loads the file when it exists.\<close>

definition NewStore :: "string \<Rightarrow> string option \<Rightarrow> store_error + Store" where
  "NewStore path disk =
     (let store = \<lparr>filePath = path, Mappings = Map.empty\<rparr> in
      if disk = None then Inr store
      else (case Load store disk of
              (s, None) \<Rightarrow> Inr s
            | (s, Some err) \<Rightarrow> Inl err))"

text \<open>
  \<^verbatim>\<open>Save\<close> writes the header and one line \<^verbatim>\<open>key: value\<close> for each entry, in the
  order \<open>ks\<close> in which \<^verbatim>\<open>range\<close> visits the map.
\<close>

definition header_line :: string where
  "header_line = ''# Account mappings: statement_account -> arian_account''"

definition entry_line :: "string \<Rightarrow> string \<Rightarrow> string" where
  "entry_line statementAccount arianAccount = statementAccount @ '': '' @ arianAccount"

definition Save_text :: "string list \<Rightarrow> (string \<rightharpoonup> string) \<Rightarrow> string" where
  "Save_text ks m =
     header_line @ [newline] @
     concat (map (\<lambda>k. case m k of None \<Rightarrow> [] | Some v \<Rightarrow> entry_line k v @ [newline]) ks)"

text \<open>
  The text does not go to the file directly: \<^verbatim>\<open>Save\<close> hands the header and each
  line to a \<^verbatim>\<open>bufio.Writer\<close> of the default size, one \<^verbatim>\<open>WriteString\<close> each.
\<close>

definition Save_strings :: "string list \<Rightarrow> (string \<rightharpoonup> string) \<Rightarrow> string list" where
  "Save_strings ks m =
     (header_line @ [newline]) #
     map (\<lambda>k. case m k of None \<Rightarrow> [] | Some v \<Rightarrow> entry_line k v @ [newline]) ks"

definition defaultBufSize :: nat where
  "defaultBufSize = 4096"

text \<open>
  \<^verbatim>\<open>WriteString\<close> on a writer that has met no error, from the buffered bytes to the
  writes made to the file and the bytes buffered afterwards. A string that fits the
  free space is only buffered. Otherwise an empty buffer passes the string to the
  file in one write; a buffer that holds bytes is filled and flushed, and the rest
  is buffered when it fits the empty buffer and written to the file when it does
  not.
\<close>

definition WriteString :: "string \<Rightarrow> string \<Rightarrow> string list \<times> string" where
  "WriteString buf s =
     (if length s \<le> defaultBufSize - length buf then ([], buf @ s)
      else if buf = [] then ([s], [])
      else
        (let n = defaultBufSize - length buf; rest = drop n s
         in if length rest \<le> defaultBufSize then ([buf @ take n s], rest)
            else ([buf @ take n s, rest], [])))"

fun Save_writes :: "string list \<Rightarrow> string \<Rightarrow> string list \<times> string" where
  "Save_writes [] buf = ([], buf)"
| "Save_writes (s # ss) buf =
     (case WriteString buf s of
        (ws, buf') \<Rightarrow>
          (case Save_writes ss buf' of
             (ws', buf'') \<Rightarrow> (ws @ ws', buf'')))"

text \<open>
  How the file system answers a \<^verbatim>\<open>Save\<close> is not decided by the program: every write
  succeeds, or \<^verbatim>\<open>os.Create\<close> fails and the file stays as it was, or the write of
  index \<open>j\<close> to the created file fails after \<open>p\<close> of its bytes reached the file.

  A write made by a \<^verbatim>\<open>WriteString\<close> of the loop fails that \<^verbatim>\<open>WriteString\<close>, and
  \<^verbatim>\<open>Save\<close> returns the error. The bytes still buffered when the loop ends are
  written by the deferred \<^verbatim>\<open>writer.Flush()\<close>, whose error nothing reads: when that
  write fails, \<^verbatim>\<open>Save\<close> returns no error and the file holds a prefix of the text.
  With no write of index \<open>j\<close>, the file is written in full.
\<close>

datatype save_io = Written | CreateFails | WriteFails nat nat

definition Save ::
  "save_io \<Rightarrow> string list \<Rightarrow> Store \<Rightarrow> string option \<Rightarrow> string option \<times> store_error option" where
  "Save io ks s disk =
     (case io of
        CreateFails \<Rightarrow> (disk, Some CreateFailed)
      | Written \<Rightarrow> (Some (Save_text ks (Mappings s)), None)
      | WriteFails j p \<Rightarrow>
          (case Save_writes (Save_strings ks (Mappings s)) [] of
             (ws, buf) \<Rightarrow>
               if j < length ws
               then (Some (concat (take j ws) @ take p (ws ! j)), Some WriteFailed)
               else if j = length ws \<and> buf \<noteq> []
               then (Some (concat ws @ take p buf), None)
               else (Some (Save_text ks (Mappings s)), None)))"

definition FindMapping :: "Store \<Rightarrow> string \<Rightarrow> string" where
  "FindMapping s statementAccountNumber =
     (case Mappings s statementAccountNumber of None \<Rightarrow> [] | Some v \<Rightarrow> v)"

text \<open>\<^verbatim>\<open>AddMapping\<close> updates the map first and saves afterwards; nothing undoes the update.\<close>

definition AddMapping ::
  "save_io \<Rightarrow> string list \<Rightarrow> Store \<Rightarrow> string \<Rightarrow> string \<Rightarrow> string option \<Rightarrow>
     Store \<times> string option \<times> store_error option" where
  "AddMapping io ks s statementAccountNumber arianAccountName disk =
     (let s' = s\<lparr>Mappings := (Mappings s)(statementAccountNumber \<mapsto> arianAccountName)\<rparr>
      in (s', Save io ks s' disk))"

text \<open>
  Keys and values that a line of the file can carry: a key is non-empty, has no colon
  and no newline, does not begin with \<^verbatim>\<open>#\<close> and has no leading or trailing white
  space; a value has no newline and no leading or trailing white space.
\<close>

definition storable_key :: "string \<Rightarrow> bool" where
  "storable_key k \<longleftrightarrow>
     k \<noteq> [] \<and> CHR '':'' \<notin> set k \<and> newline \<notin> set k \<and> \<not> HasPrefix k ''#'' \<and>
     \<not> leading_space k \<and> \<not> trailing_space k"

definition storable_value :: "string \<Rightarrow> bool" where
  "storable_value v \<longleftrightarrow> newline \<notin> set v \<and> \<not> leading_space v \<and> \<not> trailing_space v"

section \<open>Target accounts and the outside world\<close>

text \<open>
  Modelled from the spec: the generated package \<^verbatim>\<open>internal/gen\<close> with the messages
  \<^verbatim>\<open>Account\<close> and \<^verbatim>\<open>AccountType\<close> is not part of the sources at hand. A target
  account has an identity (an \<^verbatim>\<open>int64\<close>), a display name, a bank tag, an account
  type and a currency; the enumeration has the four values \<^verbatim>\<open>main\<close> names, and
  \<open>ACCOUNT_OTHER\<close> stands for any further value of the protocol.
\<close>

datatype AccountType =
  ACCOUNT_UNSPECIFIED | ACCOUNT_CHEQUING | ACCOUNT_SAVINGS | ACCOUNT_CREDIT_CARD
  | ACCOUNT_OTHER nat

record Account =
  Id' :: "64 word"
  Name :: string
  Bank :: string
  Type :: AccountType
  MainCurrency :: string

definition convertToAccountType :: "string \<Rightarrow> AccountType" where
  "convertToAccountType accountType =
     (if accountType = ''visa'' then ACCOUNT_CREDIT_CARD
      else if accountType = ''savings'' then ACCOUNT_SAVINGS
      else if accountType = ''chequing'' then ACCOUNT_CHEQUING
      else ACCOUNT_UNSPECIFIED)"

text \<open>
  What the program does not decide is gathered in a \<open>world\<close>:
  \<^item> \<^verbatim>\<open>strings.EqualFold\<close>, equality under Unicode case folding;
  \<^item> \<^verbatim>\<open>AccountType.String\<close> of the generated code;
  \<^item> the operator's answer to the \<open>n\<close>-th form: the selected option value, or \<open>None\<close>
    when \<^verbatim>\<open>form.Run\<close> fails;
  \<^item> the ledger service's answer to the \<open>n\<close>-th \<^verbatim>\<open>CreateAccount\<close>: the account
    created, or \<open>None\<close> when the call fails;
  \<^item> the file system's answer to the \<open>n\<close>-th \<^verbatim>\<open>Save\<close>, and the order in which that
    \<^verbatim>\<open>Save\<close> ranges over the map.
\<close>

record world =
  EqualFold :: "string \<Rightarrow> string \<Rightarrow> bool"
  TypeString :: "AccountType \<Rightarrow> string"
  form_Run :: "nat \<Rightarrow> string \<Rightarrow> (string \<times> string) list \<Rightarrow> string option"
  CreateAccount :: "nat \<Rightarrow> string \<Rightarrow> string \<Rightarrow> string \<Rightarrow> AccountType \<Rightarrow> string \<Rightarrow> Account option"
  save_io :: "nat \<Rightarrow> save_io"
  save_order :: "nat \<Rightarrow> string list"

definition findMatchingAccount ::
  "world \<Rightarrow> Account list \<Rightarrow> string \<Rightarrow> string \<Rightarrow> Account option" where
  "findMatchingAccount w accounts accountName accountType =
     find (\<lambda>account. Type account = convertToAccountType accountType \<and>
                      EqualFold w (Name account) accountName) accounts"

definition ResolveAccount :: "world \<Rightarrow> string \<Rightarrow> Account list \<Rightarrow> Account option" where
  "ResolveAccount w arianAccountName accounts =
     (if arianAccountName = [] then None
      else find (\<lambda>account. EqualFold w (Name account) arianAccountName) accounts)"

subsection \<open>Decimal numbers of \<^verbatim>\<open>strconv\<close>\<close>

text \<open>
  \<^verbatim>\<open>strconv.ParseInt(s, 10, 64)\<close> with its error dropped, as \<^verbatim>\<open>main\<close> calls it:
  0 on a syntax error, the nearest bound of \<^verbatim>\<open>int64\<close> on a range error.
\<close>

definition is_digit :: "char \<Rightarrow> bool" where
  "is_digit c \<longleftrightarrow> 48 \<le> (of_char c :: nat) \<and> (of_char c :: nat) \<le> 57"

fun parse_digits :: "nat \<Rightarrow> string \<Rightarrow> nat option" where
  "parse_digits acc [] = Some acc"
| "parse_digits acc (c # cs) =
     (if is_digit c then parse_digits (10 * acc + (of_char c - 48)) cs else None)"

definition ParseUint :: "string \<Rightarrow> nat option" where
  "ParseUint s = (if s = [] then None else parse_digits 0 s)"

definition ParseInt :: "string \<Rightarrow> 64 word" where
  "ParseInt s =
     (if s = [] then 0
      else
        (let neg = (hd s = CHR ''-'');
             body = (if hd s = CHR ''+'' \<or> hd s = CHR ''-'' then tl s else s)
         in case ParseUint body of
              None \<Rightarrow> 0
            | Some un \<Rightarrow>
                if \<not> neg \<and> 2 ^ 63 \<le> un then word_of_nat (2 ^ 63 - 1)
                else if neg \<and> 2 ^ 63 < un then - word_of_nat (2 ^ 63)
                else if neg then - word_of_nat un else word_of_nat un))"

text \<open>\<^verbatim>\<open>strconv.FormatInt(i, 10)\<close>; twenty digits are enough for 64 bits.\<close>

fun digits_fuel :: "nat \<Rightarrow> nat \<Rightarrow> string" where
  "digits_fuel 0 n = []"
| "digits_fuel (Suc fuel) n =
     (if n < 10 then [''0123456789'' ! n]
      else digits_fuel fuel (n div 10) @ [''0123456789'' ! (n mod 10)])"

definition FormatInt :: "64 word \<Rightarrow> string" where
  "FormatInt i =
     (if sint i < 0 then CHR ''-'' # digits_fuel 20 (nat (- sint i))
      else digits_fuel 20 (nat (sint i)))"

subsection \<open>The prompt\<close>

definition OptionNewAccount :: string where
  "OptionNewAccount = ''__new_account__''"

text \<open>
  \<^verbatim>\<open>PromptForAccountMapping\<close> offers the creation of an account and every existing
  account; \<open>None\<close> is the error return.
\<close>

definition PromptForAccountMapping ::
  "world \<Rightarrow> nat \<Rightarrow> string \<Rightarrow> Account list \<Rightarrow> (string \<times> bool) option" where
  "PromptForAccountMapping w n statementAccountNumber existingAccounts =
     (let options =
            (''Create new account'', OptionNewAccount) #
            map (\<lambda>account.
                   (Name account @ '' ('' @ Bank account @ '' - '' @ TypeString w (Type account) @ '')'',
                    FormatInt (Id' account)))
                existingAccounts;
          title = ''Found account '' @ [CHR 0x27] @ statementAccountNumber @ [CHR 0x27] @ '' in statement''
      in case form_Run w n title options of
           None \<Rightarrow> None
         | Some selectedOption \<Rightarrow>
             if selectedOption = OptionNewAccount then Some ([], True)
             else Some (selectedOption, False))"

section \<open>Account resolution in \<^verbatim>\<open>main\<close>\<close>

text \<open>
  The two loops of \<^verbatim>\<open>main\<close> over the transactions. \<^verbatim>\<open>log.Printf\<close> of a warning
  appends to \<open>warnings\<close>; \<^verbatim>\<open>log.Fatalf\<close> ends the run with a \<open>fatal\<close> value and the
  state reached.
\<close>

datatype warning =
  MappedAccountMissing string string | SaveMappingFailed store_error | TypeMismatch string

datatype fatal =
  PromptFailed | CreateAccountFailed | SelectedAccountNotFound
  | NoAccountFound string | NoAccountForMapping string string

text \<open>
  The state of the run: the account snapshot, the store, the map \<^verbatim>\<open>askedMappings\<close>
  and the file of the store. Three fields record the calls made to the outside:
  \<open>prompts\<close> lists, for each call of \<^verbatim>\<open>PromptForAccountMapping\<close>, the account name
  and account type of the transaction it was made for; \<open>created\<close> and \<open>saves\<close> count the
  calls of \<^verbatim>\<open>CreateAccount\<close> and \<^verbatim>\<open>Save\<close>.
\<close>

record run_state =
  accounts :: "Account list"
  mappingStore :: Store
  askedMappings :: "string \<rightharpoonup> bool"
  disk :: "string option"
  prompts :: "(string \<times> string) list"
  created :: nat
  saves :: nat
  warnings :: "warning list"

definition initial_state :: "Account list \<Rightarrow> Store \<Rightarrow> string option \<Rightarrow> run_state" where
  "initial_state accts store d =
     \<lparr>accounts = accts, mappingStore = store, askedMappings = Map.empty, disk = d,
      prompts = [], created = 0, saves = 0, warnings = []\<rparr>"

text \<open>The account name of a transaction: its account number, if present and non-empty.\<close>

definition account_name :: "Transaction \<Rightarrow> string" where
  "account_name tx =
     (case StatementAccountNumber tx of
        None \<Rightarrow> ''Unknown''
      | Some n \<Rightarrow> if n \<noteq> [] then n else ''Unknown'')"

definition mapping_key :: "Transaction \<Rightarrow> string" where
  "mapping_key tx = account_name tx @ ''|'' @ StatementAccountType tx"

definition asked :: "(string \<rightharpoonup> bool) \<Rightarrow> string \<Rightarrow> bool" where
  "asked m k = (case m k of None \<Rightarrow> False | Some b \<Rightarrow> b)"

text \<open>
  The block \<^verbatim>\<open>Save mapping\<close>: \<^verbatim>\<open>AddMapping\<close>, and a warning when it returns an
  error.
\<close>

definition save_mapping :: "world \<Rightarrow> run_state \<Rightarrow> string \<Rightarrow> string \<Rightarrow> run_state" where
  "save_mapping w s accountName target =
     (case AddMapping (save_io w (saves s)) (save_order w (saves s)) (mappingStore s)
             accountName target (disk s) of
        (store', disk', err) \<Rightarrow>
          s\<lparr>mappingStore := store', disk := disk', saves := Suc (saves s),
            warnings := (case err of
                           None \<Rightarrow> warnings s
                         | Some e \<Rightarrow> warnings s @ [SaveMappingFailed e])\<rparr>)"

text \<open>The branch \<^verbatim>\<open>If still no match, prompt the user\<close>.\<close>

definition resolve_by_prompt ::
  "world \<Rightarrow> string \<Rightarrow> run_state \<Rightarrow> Transaction \<Rightarrow> (fatal \<times> run_state) + run_state" where
  "resolve_by_prompt w userID s tx =
     (let accountName = account_name tx;
          s3 = s\<lparr>prompts := prompts s @ [(accountName, StatementAccountType tx)]\<rparr>
      in case PromptForAccountMapping w (length (prompts s)) accountName (accounts s) of
           None \<Rightarrow> Inl (PromptFailed, s3)
         | Some (selectedAccountID, isNewAccount) \<Rightarrow>
             if isNewAccount then
               (let accountType = convertToAccountType (StatementAccountType tx);
                    s4 = s3\<lparr>created := Suc (created s3)\<rparr>
                in case CreateAccount w (created s3) userID accountName ''RBC'' accountType ''CAD'' of
                     None \<Rightarrow> Inl (CreateAccountFailed, s4)
                   | Some newAccount \<Rightarrow>
                       Inr (save_mapping w (s4\<lparr>accounts := accounts s4 @ [newAccount]\<rparr>)
                              accountName (Name newAccount)))
             else
               (case find (\<lambda>account. Id' account = ParseInt selectedAccountID) (accounts s3) of
                  None \<Rightarrow> Inl (SelectedAccountNotFound, s3)
                | Some matchedAccount \<Rightarrow>
                    (let s5 = save_mapping w s3 accountName (Name matchedAccount);
                         expectedType = convertToAccountType (StatementAccountType tx)
                     in Inr (if Type matchedAccount \<noteq> expectedType
                             then s5\<lparr>warnings := warnings s5 @ [TypeMismatch accountName]\<rparr>
                             else s5))))"

text \<open>The body of the first loop.\<close>

definition pass1_step ::
  "world \<Rightarrow> string \<Rightarrow> run_state \<Rightarrow> Transaction \<Rightarrow> (fatal \<times> run_state) + run_state" where
  "pass1_step w userID s tx =
     (let accountName = account_name tx;
          mappingKey = accountName @ ''|'' @ StatementAccountType tx
      in if asked (askedMappings s) mappingKey then Inr s
         else
           (let s1 = s\<lparr>askedMappings := (askedMappings s)(mappingKey \<mapsto> True)\<rparr>;
                arianAccountName = FindMapping (mappingStore s1) accountName;
                saved = (if arianAccountName \<noteq> []
                         then ResolveAccount w arianAccountName (accounts s1) else None);
                s2 = (if arianAccountName \<noteq> [] \<and> saved = None
                      then s1\<lparr>warnings := warnings s1 @
                                 [MappedAccountMissing accountName arianAccountName]\<rparr>
                      else s1);
                matchedAccount =
                  (case saved of
                     None \<Rightarrow> findMatchingAccount w (accounts s2) accountName (StatementAccountType tx)
                   | Some a \<Rightarrow> Some a)
            in case matchedAccount of
                 Some a \<Rightarrow> Inr s2
               | None \<Rightarrow> resolve_by_prompt w userID s2 tx))"

fun pass1 ::
  "world \<Rightarrow> string \<Rightarrow> Transaction list \<Rightarrow> run_state \<Rightarrow> (fatal \<times> run_state) + run_state" where
  "pass1 w userID [] s = Inr s"
| "pass1 w userID (tx # txs) s =
     (case pass1_step w userID s tx of
        Inl e \<Rightarrow> Inl e
      | Inr s' \<Rightarrow> pass1 w userID txs s')"

text \<open>
  The body of the second loop. The transactions are reached through pointers and
  the loop writes \<^verbatim>\<open>AccountID\<close> in place; the value assigned depends on fields the
  loop does not write, so the updated list is the list of updated transactions.
\<close>

definition pass2_step ::
  "world \<Rightarrow> Account list \<Rightarrow> Store \<Rightarrow> Transaction \<Rightarrow> fatal + Transaction" where
  "pass2_step w accts store tx =
     (let accountName = account_name tx;
          arianAccountName = FindMapping store accountName
      in if arianAccountName = [] then
           (case findMatchingAccount w accts accountName (StatementAccountType tx) of
              Some matchedAccount \<Rightarrow> Inr (tx\<lparr>AccountID := Id' matchedAccount\<rparr>)
            | None \<Rightarrow> Inl (NoAccountFound accountName))
         else
           (case ResolveAccount w arianAccountName accts of
              Some matchedAccount \<Rightarrow> Inr (tx\<lparr>AccountID := Id' matchedAccount\<rparr>)
            | None \<Rightarrow> Inl (NoAccountForMapping accountName arianAccountName)))"

definition bump_stats :: "(string \<rightharpoonup> int) \<Rightarrow> string \<Rightarrow> (string \<rightharpoonup> int)" where
  "bump_stats stats k = stats(k \<mapsto> (case stats k of None \<Rightarrow> 0 | Some c \<Rightarrow> c) + 1)"

fun pass2 ::
  "world \<Rightarrow> Account list \<Rightarrow> Store \<Rightarrow> Transaction list \<Rightarrow> (string \<rightharpoonup> int) \<Rightarrow>
     fatal + Transaction list \<times> (string \<rightharpoonup> int)" where
  "pass2 w accts store [] stats = Inr ([], stats)"
| "pass2 w accts store (tx # txs) stats =
     (case pass2_step w accts store tx of
        Inl e \<Rightarrow> Inl e
      | Inr tx' \<Rightarrow>
          (case pass2 w accts store txs (bump_stats stats (account_name tx)) of
             Inl e \<Rightarrow> Inl e
           | Inr (txs', stats') \<Rightarrow> Inr (tx' # txs', stats')))"

definition resolve ::
  "world \<Rightarrow> string \<Rightarrow> Account list \<Rightarrow> Store \<Rightarrow> string option \<Rightarrow> Transaction list \<Rightarrow>
     (fatal \<times> run_state) + Transaction list \<times> (string \<rightharpoonup> int) \<times> run_state" where
  "resolve w userID accts store d txs =
     (case pass1 w userID txs (initial_state accts store d) of
        Inl e \<Rightarrow> Inl e
      | Inr s \<Rightarrow>
          (case pass2 w (accounts s) (mappingStore s) txs Map.empty of
             Inl e \<Rightarrow> Inl (e, s)
           | Inr (txs', stats) \<Rightarrow> Inr (txs', stats, s)))"

definition outcome_state :: "(fatal \<times> run_state) + run_state \<Rightarrow> run_state" where
  "outcome_state r = (case r of Inl (e, s) \<Rightarrow> s | Inr s \<Rightarrow> s)"

section \<open>Rows of the CSV export\<close>

text \<open>
  \<^verbatim>\<open>parseCSVRow\<close> calls \<^verbatim>\<open>strings.ToLower\<close>, \<^verbatim>\<open>time.Parse\<close> with the layout
  \<^verbatim>\<open>1/2/2006\<close> and \<^verbatim>\<open>strconv.ParseFloat\<close>; they are arguments here (\<open>None\<close> is
  the error return).
\<close>

record stdlib =
  ToLower :: "string \<Rightarrow> string"
  time_Parse :: "string \<Rightarrow> int option"
  ParseFloat :: "string \<Rightarrow> float64 option"

datatype row_error =
  EmptyAccountType | EmptyAccountNumber | InvalidDate string | EmptyDescription
  | InvalidCAD string | InvalidUSD string | NoAmount

definition getCol :: "string list \<Rightarrow> (string \<rightharpoonup> nat) \<Rightarrow> string \<Rightarrow> string" where
  "getCol record colIndices name =
     (case colIndices name of
        Some idx \<Rightarrow> if idx < length record then TrimSpace (record ! idx) else []
      | None \<Rightarrow> [])"

text \<open>\<^verbatim>\<open>strings.ReplaceAll(s, ",", "")\<close>.\<close>

definition remove_commas :: "string \<Rightarrow> string" where
  "remove_commas s = filter (\<lambda>c. c \<noteq> CHR '','') s"

text \<open>
  The comparisons \<^verbatim>\<open>amount == 0\<close> and \<^verbatim>\<open>amount < 0\<close> and the negation of a
  \<^verbatim>\<open>float64\<close>; both comparisons are false for NaN.
\<close>

definition is_zero :: "float64 \<Rightarrow> bool" where
  "is_zero amount = (case amount of Finite r \<Rightarrow> r = 0 | _ \<Rightarrow> False)"

definition below_zero :: "float64 \<Rightarrow> bool" where
  "below_zero amount = (case amount of Finite r \<Rightarrow> r < 0 | NegInf \<Rightarrow> True | _ \<Rightarrow> False)"

definition negate :: "float64 \<Rightarrow> float64" where
  "negate amount =
     (case amount of Finite r \<Rightarrow> Finite (- r) | PosInf \<Rightarrow> NegInf | NegInf \<Rightarrow> PosInf | NaN \<Rightarrow> NaN)"

definition magnitude :: "float64 \<Rightarrow> float64" where
  "magnitude amount = (if below_zero amount then negate amount else amount)"

text \<open>The choice of the amount column.\<close>

definition parse_amount ::
  "stdlib \<Rightarrow> string \<Rightarrow> string \<Rightarrow> row_error + float64 \<times> string" where
  "parse_amount lib cadStr usdStr =
     (if cadStr \<noteq> [] then
        (case ParseFloat lib (remove_commas cadStr) of
           None \<Rightarrow> Inl (InvalidCAD (remove_commas cadStr))
         | Some amount \<Rightarrow> Inr (amount, ''CAD''))
      else if usdStr \<noteq> [] then
        (case ParseFloat lib (remove_commas usdStr) of
           None \<Rightarrow> Inl (InvalidUSD (remove_commas usdStr))
         | Some amount \<Rightarrow> Inr (amount, ''USD''))
      else Inl NoAmount)"

text \<open>The direction, the normalised account type and the transaction returned.\<close>

definition make_transaction ::
  "int \<Rightarrow> float64 \<Rightarrow> string \<Rightarrow> string \<Rightarrow> string \<Rightarrow> string \<Rightarrow> string \<Rightarrow> Transaction" where
  "make_transaction txDate amount currency description accountNumber accountType sourcePath =
     (let direction = (if below_zero amount then Out else In);
          normalizedAccountType =
            (if accountType = ''chequing'' \<or> accountType = ''savings''
             then accountType
             else if accountType = ''visa'' then ''visa'' else accountType)
      in \<lparr>TxDate = txDate, TxAmount = magnitude amount, TxCurrency = currency,
          TxDirection = direction, TxDesc = description,
          StatementAccountNumber = Some accountNumber,
          StatementAccountType = normalizedAccountType,
          StatementAccountName = [], SourceFilePath = sourcePath,
          AccountID = 0\<rparr>)"

definition parseCSVRow ::
  "stdlib \<Rightarrow> string list \<Rightarrow> (string \<rightharpoonup> nat) \<Rightarrow> string \<Rightarrow> row_error + Transaction option" where
  "parseCSVRow lib record colIndices sourcePath =
     (let accountType = ToLower lib (getCol record colIndices ''Account Type'') in
      if accountType = [] then Inl EmptyAccountType
      else
        let accountNumber = getCol record colIndices ''Account Number'' in
        if accountNumber = [] then Inl EmptyAccountNumber
        else
          let dateStr = getCol record colIndices ''Transaction Date'' in
          case time_Parse lib dateStr of
            None \<Rightarrow> Inl (InvalidDate dateStr)
          | Some txDate \<Rightarrow>
              let desc1 = getCol record colIndices ''Description 1'';
                  desc2 = getCol record colIndices ''Description 2'';
                  description = TrimSpace (desc1 @ '' '' @ desc2)
              in
              if description = [] then Inl EmptyDescription
              else
                let cadStr = getCol record colIndices ''CAD$'';
                    usdStr = getCol record colIndices ''USD$''
                in
                case parse_amount lib cadStr usdStr of
                  Inl err \<Rightarrow> Inl err
                | Inr (amount, currency) \<Rightarrow>
                    if is_zero amount then Inr None
                    else Inr (Some (make_transaction txDate amount currency description
                                      accountNumber accountType sourcePath)))"

section \<open>Predicates of the statements\<close>

text \<open>
  A secondary transaction is kept in the group \<open>last4\<close> when it belongs to the group
  and passes the test against the latest matching primary date.
\<close>

definition kept_in_group :: "Transaction list \<Rightarrow> string \<Rightarrow> Transaction \<Rightarrow> bool" where
  "kept_in_group statementTxs last4 tx \<longleftrightarrow>
     group_key tx = Some last4 \<and> after_cutoff (FindLatestTransactionDate statementTxs last4) tx"

text \<open>
  A transaction that the second loop cannot resolve: no mapped name and no account of
  its name and type, or a mapped name that no account carries.
\<close>

definition unresolvable :: "world \<Rightarrow> Account list \<Rightarrow> Store \<Rightarrow> Transaction \<Rightarrow> bool" where
  "unresolvable w accts store tx \<longleftrightarrow>
     (if FindMapping store (account_name tx) = []
      then findMatchingAccount w accts (account_name tx) (StatementAccountType tx) = None
      else ResolveAccount w (FindMapping store (account_name tx)) accts = None)"

text \<open>
  No two calls of the prompt were made for the same account name and type, and every
  pair the prompt was called for is marked in \<^verbatim>\<open>askedMappings\<close>.
\<close>

definition prompt_inv :: "run_state \<Rightarrow> bool" where
  "prompt_inv s \<longleftrightarrow>
     distinct (prompts s) \<and>
     (\<forall>p\<in>set (prompts s). asked (askedMappings s) (fst p @ ''|'' @ snd p))"

text \<open>
  What the run holds in memory, apart from the warnings: the outcome of a \<^verbatim>\<open>Save\<close>
  can show in the file, the warnings and the count of saves only.
\<close>

definition memory ::
  "run_state \<Rightarrow> Account list \<times> Store \<times> (string \<rightharpoonup> bool) \<times> (string \<times> string) list \<times> nat" where
  "memory s = (accounts s, mappingStore s, askedMappings s, prompts s, created s)"

definition memory_outcome ::
  "(fatal \<times> run_state) + run_state \<Rightarrow>
     (fatal \<times> Account list \<times> Store \<times> (string \<rightharpoonup> bool) \<times> (string \<times> string) list \<times> nat) +
     Account list \<times> Store \<times> (string \<rightharpoonup> bool) \<times> (string \<times> string) list \<times> nat" where
  "memory_outcome r = map_sum (\<lambda>(e, s). (e, memory s)) memory r"

text \<open>
  What the first loop reads and writes at the key \<open>k\<close> of the store: the accounts,
  the entry of the store at \<open>k\<close>, the keys already asked, the prompts made and the
  counts of created accounts and of saves.
\<close>

definition store_view ::
  "string \<Rightarrow> run_state \<Rightarrow>
     Account list \<times> string option \<times> (string \<rightharpoonup> bool) \<times> (string \<times> string) list \<times> nat \<times> nat" where
  "store_view k s =
     (accounts s, Mappings (mappingStore s) k, askedMappings s, prompts s, created s, saves s)"

definition view_outcome ::
  "string \<Rightarrow> (fatal \<times> run_state) + run_state \<Rightarrow>
     (fatal \<times> Account list \<times> string option \<times> (string \<rightharpoonup> bool) \<times> (string \<times> string) list \<times> nat \<times> nat) +
     Account list \<times> string option \<times> (string \<rightharpoonup> bool) \<times> (string \<times> string) list \<times> nat \<times> nat" where
  "view_outcome k r = map_sum (\<lambda>(e, s). (e, store_view k s)) (store_view k) r"

section \<open>Sample data\<close>

text \<open>The merge scenarios of the specification, with days as instants.\<close>

definition sample_tx :: "string option \<Rightarrow> int \<Rightarrow> Transaction" where
  "sample_tx n d =
     \<lparr>TxDate = d, TxAmount = Finite 1, TxCurrency = ''CAD'', TxDirection = In,
      TxDesc = ''payment'', StatementAccountNumber = n, StatementAccountType = ''chequing'',
      StatementAccountName = [], SourceFilePath = ''export.csv'', AccountID = 0\<rparr>"

definition scenario_primary :: "Transaction list" where
  "scenario_primary = [sample_tx (Some ''05172-5163878'') 1, sample_tx (Some ''05172-5163878'') 15]"

definition scenario_secondary :: "Transaction list" where
  "scenario_secondary =
     [sample_tx (Some ''5163878'') 10, sample_tx (Some ''5163878'') 20, sample_tx (Some ''5163878'') 25]"

definition interleaved_secondary :: "Transaction list" where
  "interleaved_secondary =
     [sample_tx (Some ''1111'') 1, sample_tx (Some ''2222'') 2, sample_tx (Some ''1111'') 3]"

text \<open>A key of 65536 bytes, and a store with two entries, one with an empty value.\<close>

definition long_key :: string where
  "long_key = replicate (64 * 1024) (CHR ''a'')"

definition sample_store :: Store where
  "sample_store =
     \<lparr>filePath = ''account-mappings.txt'',
      Mappings = [''3802'' \<mapsto> ''Visa Card'', ''05172-5163878'' \<mapsto> '''']\<rparr>"

definition empty_store :: Store where
  "empty_store = \<lparr>filePath = ''account-mappings.txt'', Mappings = Map.empty\<rparr>"

definition mapped_store :: Store where
  "mapped_store = \<lparr>filePath = ''account-mappings.txt'', Mappings = [''1234'' \<mapsto> ''Everyday'']\<rparr>"

text \<open>The same store with one more entry, under a key made of a number and a type.\<close>

definition typed_key_store :: Store where
  "typed_key_store =
     \<lparr>filePath = ''account-mappings.txt'',
      Mappings = [''1234'' \<mapsto> ''Everyday'', ''1234|savings'' \<mapsto> ''Nowhere'']\<rparr>"

text \<open>
  A world for the samples: \<^verbatim>\<open>EqualFold\<close> on ASCII strings, one answer to every
  prompt, an account service that returns account 5 under the requested name, and
  one outcome for every \<^verbatim>\<open>Save\<close>.
\<close>

definition ascii_lower :: "char \<Rightarrow> char" where
  "ascii_lower c =
     (case map_of (zip ''ABCDEFGHIJKLMNOPQRSTUVWXYZ'' ''abcdefghijklmnopqrstuvwxyz'') c of
        None \<Rightarrow> c
      | Some l \<Rightarrow> l)"

definition EqualFold_ascii :: "string \<Rightarrow> string \<Rightarrow> bool" where
  "EqualFold_ascii s t \<longleftrightarrow> map ascii_lower s = map ascii_lower t"

definition sample_world :: "string option \<Rightarrow> save_io \<Rightarrow> string list \<Rightarrow> world" where
  "sample_world answer io order =
     \<lparr>EqualFold = EqualFold_ascii,
      TypeString = (\<lambda>t. ''ACCOUNT''),
      form_Run = (\<lambda>n title options. answer),
      CreateAccount = (\<lambda>n userID accountName bank accountType currency.
         Some \<lparr>Id' = 5, Name = accountName, Bank = bank, Type = accountType,
               MainCurrency = currency\<rparr>),
      save_io = (\<lambda>n. io),
      save_order = (\<lambda>n. order)\<rparr>"

definition visa_tx :: "int \<Rightarrow> Transaction" where
  "visa_tx d =
     \<lparr>TxDate = d, TxAmount = Finite 1, TxCurrency = ''CAD'', TxDirection = Out,
      TxDesc = ''coffee'', StatementAccountNumber = Some ''3802'', StatementAccountType = ''visa'',
      StatementAccountName = ''VISA'', SourceFilePath = ''visa.pdf'', AccountID = 0\<rparr>"

definition numbered_tx :: "string \<Rightarrow> string \<Rightarrow> Transaction" where
  "numbered_tx n t =
     \<lparr>TxDate = 1, TxAmount = Finite 1, TxCurrency = ''CAD'', TxDirection = Out,
      TxDesc = ''transfer'', StatementAccountNumber = Some n, StatementAccountType = t,
      StatementAccountName = [], SourceFilePath = ''statement.pdf'', AccountID = 0\<rparr>"

definition everyday_account :: Account where
  "everyday_account =
     \<lparr>Id' = 7, Name = ''Everyday'', Bank = ''RBC'', Type = ACCOUNT_CHEQUING, MainCurrency = ''CAD''\<rparr>"

definition visa_account :: Account where
  "visa_account =
     \<lparr>Id' = 9, Name = ''3802'', Bank = ''RBC'', Type = ACCOUNT_CREDIT_CARD, MainCurrency = ''CAD''\<rparr>"

text \<open>
  The columns of the export, and a library that knows the date and the two amounts of
  the sample rows.
\<close>

definition rbc_columns :: "string \<rightharpoonup> nat" where
  "rbc_columns =
     map_of [(''Account Type'', 0), (''Account Number'', 1), (''Transaction Date'', 2),
             (''Cheque Number'', 3), (''Description 1'', 4), (''Description 2'', 5),
             (''CAD$'', 6), (''USD$'', 7)]"

definition sample_lib :: stdlib where
  "sample_lib =
     \<lparr>ToLower = map ascii_lower,
      time_Parse = (\<lambda>s. if s = ''1/20/2024'' then Some 20 else None),
      ParseFloat = (\<lambda>s. if s = ''1234.50'' then Some (Finite 1234.5)
                         else if s = ''-99.00'' then Some (Finite (- 99)) else None)\<rparr>"

definition sample_row :: "string \<Rightarrow> string \<Rightarrow> string list" where
  "sample_row cad usd =
     [''Chequing'', ''05172-5163878'', ''1/20/2024'', [], ''PAYROLL'', [], cad, usd]"

section \<open>Auxiliary facts\<close>

lemma fold_upd_lookup:
  "fold (\<lambda>k a. a(k \<mapsto> F k)) ks a0 x = (if x \<in> set ks then Some (F x) else a0 x)"
  by (induction ks arbitrary: a0) auto

lemma find_Some_set: "find P xs = Some x \<Longrightarrow> x \<in> set xs \<and> P x"
  by (auto simp: find_Some_iff)

lemma distinct_count_le_1: "distinct xs \<Longrightarrow> count_list xs x \<le> 1"
  by (induction xs) (auto simp: count_list_0_iff)

section \<open>Properties of the merge\<close>

lemma FindLatest_loop_char:
  "FindLatest_loop txs k latest =
     (if matching_dates txs k \<union> set_option latest = {} then None
      else Some (Max (matching_dates txs k \<union> set_option latest)))"
proof (induction txs arbitrary: latest)
  case Nil
  then show ?case by (cases latest) (simp_all add: matching_dates_def)
next
  case (Cons tx txs)
  have fin: "finite (matching_dates txs k)" by (simp add: matching_dates_def)
  show ?case
  proof (cases "MatchesAccount tx k")
    case False
    then have "matching_dates (tx # txs) k = matching_dates txs k"
      by (auto simp: matching_dates_def)
    with False Cons show ?thesis by simp
  next
    case True
    then have md: "matching_dates (tx # txs) k = insert (TxDate tx) (matching_dates txs k)"
      by (auto simp: matching_dates_def)
    show ?thesis
    proof (cases latest)
      case None
      with True md Cons show ?thesis by simp
    next
      case (Some l)
      show ?thesis
      proof (cases "l < TxDate tx")
        case True
        have "Max (insert (TxDate tx) (insert l (matching_dates txs k))) = Max (insert (TxDate tx) (matching_dates txs k))"
          using True fin by (cases "matching_dates txs k = {}") (simp_all add: max.absorb1 max.assoc max.commute)
        then show ?thesis using \<open>MatchesAccount tx k\<close> True md Some Cons by (simp add: insert_commute)
      next
        case False
        have "Max (insert (TxDate tx) (insert l (matching_dates txs k))) = Max (insert l (matching_dates txs k))"
          using False fin by (cases "matching_dates txs k = {}") (simp_all add: max.absorb2 max.assoc max.commute max.left_commute)
        then show ?thesis using \<open>MatchesAccount tx k\<close> False md Some Cons by (simp add: insert_commute)
      qed
    qed
  qed
qed

lemma csvByAccount_loop_slice:
  "slice_at (csvByAccount_loop S m) k = slice_at m k @ filter (\<lambda>t. group_key t = Some k) S"
proof (induction S arbitrary: m)
  case Nil
  then show ?case by simp
next
  case (Cons tx S)
  show ?case
  proof (cases "StatementAccountNumber tx")
    case None
    then show ?thesis using Cons by (simp add: group_key_def)
  next
    case (Some n)
    let ?m' = "m(GetLast4Digits n \<mapsto> slice_at m (GetLast4Digits n) @ [tx])"
    have upd: "slice_at ?m' k = slice_at m k @ (if GetLast4Digits n = k then [tx] else [])"
      by (simp add: slice_at_def)
    have "csvByAccount_loop (tx # S) m = csvByAccount_loop S ?m'"
      using Some by simp
    then have "slice_at (csvByAccount_loop (tx # S) m) k =
               slice_at ?m' k @ filter (\<lambda>t. group_key t = Some k) S"
      by (simp only: Cons)
    also have "\<dots> = slice_at m k @ filter (\<lambda>t. group_key t = Some k) (tx # S)"
      unfolding upd using Some by (simp add: group_key_def)
    finally show ?thesis .
  qed
qed

lemma csvByAccount_loop_dom:
  "dom (csvByAccount_loop S m) = dom m \<union> {k. \<exists>t\<in>set S. group_key t = Some k}"
  by (induction S arbitrary: m) (auto simp: group_key_def split: option.splits)

lemma cutoff_at_cutoffDates:
  "k \<in> set ks \<Longrightarrow> cutoff_at (cutoffDates ks P) k = FindLatestTransactionDate P k"
  by (simp add: cutoff_at_def cutoffDates_def fold_upd_lookup)

lemma slice_csvByAccount:
  "slice_at (csvByAccount S) k = filter (\<lambda>t. group_key t = Some k) S"
proof -
  have "slice_at Map.empty k = ([] :: Transaction list)"
    by (simp add: slice_at_def)
  then show ?thesis
    unfolding csvByAccount_def csvByAccount_loop_slice by simp
qed

lemma dom_csvByAccount:
  "dom (csvByAccount S) = {k. \<exists>t\<in>set S. group_key t = Some k}"
  by (simp add: csvByAccount_def csvByAccount_loop_dom)

lemma newTransactions_char:
  assumes "set ks2 \<subseteq> set ks1"
  shows "newTransactions ks2 (csvByAccount S) (cutoffDates ks1 P) =
         concat (map (\<lambda>k. filter (kept_in_group P k) S) ks2)"
proof -
  have "filter (after_cutoff (cutoff_at (cutoffDates ks1 P) k)) (slice_at (csvByAccount S) k) =
        filter (kept_in_group P k) S" if "k \<in> set ks2" for k
  proof -
    from that assms have "k \<in> set ks1" by blast
    then show ?thesis
      by (simp add: cutoff_at_cutoffDates slice_csvByAccount kept_in_group_def [abs_def] conj_commute)
  qed
  then show ?thesis
    unfolding newTransactions_def by (simp cong: map_cong)
qed

lemma after_cutoff_FindLatest:
  "after_cutoff (FindLatestTransactionDate P k) tx \<longleftrightarrow>
     (\<forall>p\<in>set P. \<not> MatchesAccount p k) \<or> Max (matching_dates P k) < TxDate tx"
proof -
  have "matching_dates P k = {} \<longleftrightarrow> (\<forall>p\<in>set P. \<not> MatchesAccount p k)"
    by (auto simp: matching_dates_def)
  then show ?thesis
    by (auto simp: after_cutoff_def FindLatestTransactionDate_def FindLatest_loop_char)
qed

lemma set_concat_groups:
  "set (concat (map (\<lambda>k. filter (kept_in_group P k) S) ks)) =
     {t \<in> set S. \<exists>k\<in>set ks. kept_in_group P k t}"
  by auto

lemma mset_concat_groups:
  "distinct ks \<Longrightarrow>
   mset (concat (map (\<lambda>k. filter (kept_in_group P k) S) ks)) =
   mset (filter (\<lambda>t. \<exists>k\<in>set ks. kept_in_group P k t) S)"
proof (induction ks)
  case Nil
  then show ?case by simp
next
  case (Cons k ks)
  have disj: "\<not> (kept_in_group P k t \<and> (\<exists>k'\<in>set ks. kept_in_group P k' t))" for t
    using Cons.prems by (auto simp: kept_in_group_def)
  have "mset (filter (kept_in_group P k) S) + mset (filter (\<lambda>t. \<exists>k'\<in>set ks. kept_in_group P k' t) S) =
        mset (filter (\<lambda>t. kept_in_group P k t \<or> (\<exists>k'\<in>set ks. kept_in_group P k' t)) S)"
    using disj by (induction S) auto
  then show ?case using Cons by (simp add: bex_simps)
qed

lemma range_order_scenario:
  "range_order (csvByAccount scenario_secondary) [''3878'']"
  by (simp add: range_order_def csvByAccount_def scenario_secondary_def sample_tx_def
      GetLast4Digits_def)

lemma range_order_interleaved:
  "range_order (csvByAccount interleaved_secondary) [''1111'', ''2222'']"
  "range_order (csvByAccount interleaved_secondary) [''2222'', ''1111'']"
  by (auto simp add: range_order_def csvByAccount_def interleaved_secondary_def sample_tx_def
      GetLast4Digits_def)

lemma kept_scenario:
  "filter (kept_in_group scenario_primary ''3878'') scenario_secondary =
     [sample_tx (Some ''5163878'') 20, sample_tx (Some ''5163878'') 25]"
  by (simp add: kept_in_group_def group_key_def after_cutoff_def FindLatestTransactionDate_def
      scenario_primary_def scenario_secondary_def sample_tx_def GetLast4Digits_def
      MatchesAccount_def HasSuffix_def)

text \<open>
  Claim C1. For all primary and secondary sequences and all orders in which the two
  loops over the map of groups run, a secondary transaction whose account number is
  present is in the part of the output that follows the primary sequence exactly when
  no primary transaction matches the last four characters of its account number, or
  its date is strictly after the greatest date of the matching primary transactions.
  Transactions are compared by value here, so the second conjunct says the same of
  the whole output for a secondary transaction that is not also a primary one. A
  secondary transaction dated on or before that greatest date is thereby excluded.
\<close>

theorem merge_secondary_kept_iff:
  assumes "range_order (csvByAccount csvTxs) ks1"
    and "range_order (csvByAccount csvTxs) ks2"
    and "tx \<in> set csvTxs"
    and "StatementAccountNumber tx = Some n"
  shows "(tx \<in> set (drop (length statementTxs) (MergeCSVWithStatements ks1 ks2 statementTxs csvTxs)) \<longleftrightarrow>
            (\<forall>p\<in>set statementTxs. \<not> MatchesAccount p (GetLast4Digits n)) \<or>
            Max (matching_dates statementTxs (GetLast4Digits n)) < TxDate tx) \<and>
         (tx \<notin> set statementTxs \<longrightarrow>
           (tx \<in> set (MergeCSVWithStatements ks1 ks2 statementTxs csvTxs) \<longleftrightarrow>
            (\<forall>p\<in>set statementTxs. \<not> MatchesAccount p (GetLast4Digits n)) \<or>
            Max (matching_dates statementTxs (GetLast4Digits n)) < TxDate tx))"
proof -
  let ?k = "GetLast4Digits n"
  have gk: "group_key tx = Some ?k"
    using assms(4) by (simp add: group_key_def)
  have sub: "set ks2 \<subseteq> set ks1"
    using assms(1,2) by (simp add: range_order_def)
  have kin: "?k \<in> set ks2"
    using assms(2,3) gk by (auto simp: range_order_def dom_csvByAccount)
  have new: "drop (length statementTxs) (MergeCSVWithStatements ks1 ks2 statementTxs csvTxs) =
             concat (map (\<lambda>k. filter (kept_in_group statementTxs k) csvTxs) ks2)"
    by (simp add: MergeCSVWithStatements_def newTransactions_char [OF sub])
  have "tx \<in> set (concat (map (\<lambda>k. filter (kept_in_group statementTxs k) csvTxs) ks2)) \<longleftrightarrow>
        kept_in_group statementTxs ?k tx"
    unfolding set_concat_groups using assms(3) kin gk by (auto simp: kept_in_group_def)
  also have "\<dots> \<longleftrightarrow> (\<forall>p\<in>set statementTxs. \<not> MatchesAccount p ?k) \<or>
                      Max (matching_dates statementTxs ?k) < TxDate tx"
    using gk by (simp add: kept_in_group_def after_cutoff_FindLatest)
  finally have a: "tx \<in> set (drop (length statementTxs) (MergeCSVWithStatements ks1 ks2 statementTxs csvTxs)) \<longleftrightarrow>
        (\<forall>p\<in>set statementTxs. \<not> MatchesAccount p ?k) \<or>
                      Max (matching_dates statementTxs ?k) < TxDate tx"
    unfolding new .
  have "set (MergeCSVWithStatements ks1 ks2 statementTxs csvTxs) =
        set statementTxs \<union> set (drop (length statementTxs) (MergeCSVWithStatements ks1 ks2 statementTxs csvTxs))"
    by (simp add: MergeCSVWithStatements_def)
  with a show ?thesis by blast
qed

theorem merge_secondary_kept_iff_witness:
  "range_order (csvByAccount scenario_secondary) [''3878''] \<and>
   sample_tx (Some ''5163878'') 20 \<in> set scenario_secondary \<and>
   sample_tx (Some ''5163878'') 20 \<in>
     set (drop (length scenario_primary)
       (MergeCSVWithStatements [''3878''] [''3878''] scenario_primary scenario_secondary)) \<and>
   sample_tx (Some ''5163878'') 10 \<notin>
     set (MergeCSVWithStatements [''3878''] [''3878''] scenario_primary scenario_secondary)"
proof -
  have ro: "range_order (csvByAccount scenario_secondary) [''3878'']"
    by (simp add: range_order_def csvByAccount_def scenario_secondary_def sample_tx_def
        GetLast4Digits_def)
  have l4: "GetLast4Digits ''5163878'' = ''3878''"
    by (simp add: GetLast4Digits_def)
  have md: "matching_dates scenario_primary ''3878'' = {1, 15}"
    by (simp add: matching_dates_def scenario_primary_def sample_tx_def MatchesAccount_def
        HasSuffix_def)
  have m20: "sample_tx (Some ''5163878'') 20 \<in> set scenario_secondary"
    and m10: "sample_tx (Some ''5163878'') 10 \<in> set scenario_secondary"
    by (simp_all add: scenario_secondary_def)
  have n: "StatementAccountNumber (sample_tx (Some ''5163878'') d) = Some ''5163878''" for d
    by (simp add: sample_tx_def)
  have d: "TxDate (sample_tx (Some ''5163878'') d) = d" for d
    by (simp add: sample_tx_def)
  have out: "sample_tx (Some ''5163878'') 10 \<notin> set scenario_primary"
    by (simp add: scenario_primary_def sample_tx_def)
  have hit: "MatchesAccount (sample_tx (Some ''05172-5163878'') 1) ''3878''"
    by (simp add: MatchesAccount_def sample_tx_def HasSuffix_def)
  have c20: "Max (matching_dates scenario_primary ''3878'') < TxDate (sample_tx (Some ''5163878'') 20)"
    by (simp add: md d)
  have c10: "\<not> ((\<forall>p\<in>set scenario_primary. \<not> MatchesAccount p ''3878'') \<or>
      Max (matching_dates scenario_primary ''3878'') < TxDate (sample_tx (Some ''5163878'') 10))"
  proof -
    have "sample_tx (Some ''05172-5163878'') 1 \<in> set scenario_primary"
      by (simp add: scenario_primary_def)
    with hit have "\<not> (\<forall>p\<in>set scenario_primary. \<not> MatchesAccount p ''3878'')"
      by blast
    moreover have "\<not> Max (matching_dates scenario_primary ''3878'') <
        TxDate (sample_tx (Some ''5163878'') 10)"
      by (simp add: md d)
    ultimately show ?thesis by blast
  qed
  note t20 = merge_secondary_kept_iff [OF ro ro m20 n, of scenario_primary, unfolded l4]
  note t10 = merge_secondary_kept_iff [OF ro ro m10 n, of scenario_primary, unfolded l4]
  from t20 c20
  have "sample_tx (Some ''5163878'') 20 \<in>
     set (drop (length scenario_primary)
       (MergeCSVWithStatements [''3878''] [''3878''] scenario_primary scenario_secondary))"
    by blast
  moreover from t10 out c10
  have "sample_tx (Some ''5163878'') 10 \<notin>
     set (MergeCSVWithStatements [''3878''] [''3878''] scenario_primary scenario_secondary)"
    by blast
  ultimately show ?thesis using ro m20 by simp
qed

text \<open>
  Claim C4, as stated, fails: with two account groups interleaved in the secondary
  input and an empty primary sequence, either order of the loop over the map of groups
  puts the two transactions of one group next to each other, so the three kept
  transactions never come out in the order of the input.
\<close>

theorem merge_order_counterexample:
  "MergeCSVWithStatements [''1111'', ''2222''] [''1111'', ''2222''] [] interleaved_secondary =
     [sample_tx (Some ''1111'') 1, sample_tx (Some ''1111'') 3, sample_tx (Some ''2222'') 2] \<and>
   MergeCSVWithStatements [''1111'', ''2222''] [''2222'', ''1111''] [] interleaved_secondary =
     [sample_tx (Some ''2222'') 2, sample_tx (Some ''1111'') 1, sample_tx (Some ''1111'') 3] \<and>
   interleaved_secondary =
     [sample_tx (Some ''1111'') 1, sample_tx (Some ''2222'') 2, sample_tx (Some ''1111'') 3] \<and>
   sample_tx (Some ''1111'') 3 \<noteq> sample_tx (Some ''2222'') 2 \<and>
   sample_tx (Some ''1111'') 1 \<noteq> sample_tx (Some ''2222'') 2 \<and>
   range_order (csvByAccount interleaved_secondary) [''1111'', ''2222''] \<and>
   range_order (csvByAccount interleaved_secondary) [''2222'', ''1111'']"
proof -
  have "MergeCSVWithStatements [''1111'', ''2222''] [''1111'', ''2222''] [] interleaved_secondary =
     [sample_tx (Some ''1111'') 1, sample_tx (Some ''1111'') 3, sample_tx (Some ''2222'') 2]"
    by (simp add: MergeCSVWithStatements_def newTransactions_def csvByAccount_def
        cutoffDates_def interleaved_secondary_def sample_tx_def GetLast4Digits_def slice_at_def
        cutoff_at_def after_cutoff_def FindLatestTransactionDate_def)
  moreover
  have "MergeCSVWithStatements [''1111'', ''2222''] [''2222'', ''1111''] [] interleaved_secondary =
     [sample_tx (Some ''2222'') 2, sample_tx (Some ''1111'') 1, sample_tx (Some ''1111'') 3]"
    by (simp add: MergeCSVWithStatements_def newTransactions_def csvByAccount_def
        cutoffDates_def interleaved_secondary_def sample_tx_def GetLast4Digits_def slice_at_def
        cutoff_at_def after_cutoff_def FindLatestTransactionDate_def)
  moreover
  have "sample_tx (Some ''1111'') 3 \<noteq> sample_tx (Some ''2222'') 2"
    and "sample_tx (Some ''1111'') 1 \<noteq> sample_tx (Some ''2222'') 2"
    by (simp_all add: sample_tx_def)
  ultimately show ?thesis
    using range_order_interleaved by (simp add: interleaved_secondary_def)
qed

text \<open>
  Claim C4, amended. For all primary and secondary sequences and all orders of the
  loops over the map of groups, the output is the primary sequence, unchanged,
  followed by the kept secondary transactions group by group: the groups (one for
  each last-four-character suffix) come in the order in which the filtering loop
  visits the map, and inside a group the kept transactions are in the order of the
  secondary input. The part after the primary sequence holds exactly the kept
  secondary transactions, each as often as the secondary input has it.
\<close>

theorem merge_grouped_order:
  assumes "range_order (csvByAccount csvTxs) ks1"
    and "range_order (csvByAccount csvTxs) ks2"
  shows "MergeCSVWithStatements ks1 ks2 statementTxs csvTxs =
           statementTxs @ concat (map (\<lambda>k. filter (kept_in_group statementTxs k) csvTxs) ks2) \<and>
         mset (drop (length statementTxs) (MergeCSVWithStatements ks1 ks2 statementTxs csvTxs)) =
           mset (filter (\<lambda>t. \<exists>k. kept_in_group statementTxs k t) csvTxs)"
proof -
  have sub: "set ks2 \<subseteq> set ks1"
    using assms by (simp add: range_order_def)
  have eq: "MergeCSVWithStatements ks1 ks2 statementTxs csvTxs =
           statementTxs @ concat (map (\<lambda>k. filter (kept_in_group statementTxs k) csvTxs) ks2)"
    by (simp add: MergeCSVWithStatements_def newTransactions_char [OF sub])
  have "(\<exists>k\<in>set ks2. kept_in_group statementTxs k t) \<longleftrightarrow> (\<exists>k. kept_in_group statementTxs k t)"
    if "t \<in> set csvTxs" for t
    using that assms(2) by (auto simp: range_order_def dom_csvByAccount kept_in_group_def)
  then have "filter (\<lambda>t. \<exists>k\<in>set ks2. kept_in_group statementTxs k t) csvTxs =
             filter (\<lambda>t. \<exists>k. kept_in_group statementTxs k t) csvTxs"
    by (simp cong: filter_cong)
  moreover have "distinct ks2" using assms(2) by (simp add: range_order_def)
  ultimately show ?thesis
    using eq mset_concat_groups [of ks2 statementTxs csvTxs] by simp
qed

theorem merge_grouped_order_witness:
  "range_order (csvByAccount scenario_secondary) [''3878''] \<and>
   MergeCSVWithStatements [''3878''] [''3878''] scenario_primary scenario_secondary =
     scenario_primary @ [sample_tx (Some ''5163878'') 20, sample_tx (Some ''5163878'') 25]"
  using merge_grouped_order [OF range_order_scenario range_order_scenario, of scenario_primary]
    range_order_scenario
  by (simp add: kept_scenario)

text \<open>
  Claim C5, as stated, fails: a secondary transaction without account number is
  skipped when the groups are formed, so it is not in the output even though the
  primary sequence is empty.
\<close>

theorem merge_drops_unnumbered_counterexample:
  "range_order (csvByAccount [sample_tx None 5]) [] \<and>
   MergeCSVWithStatements [] [] [] [sample_tx None 5] = [] \<and>
   sample_tx None 5 \<notin> set (MergeCSVWithStatements [] [] [] [sample_tx None 5])"
  by (simp add: range_order_def csvByAccount_def sample_tx_def MergeCSVWithStatements_def
      newTransactions_def)

text \<open>
  Claim C5, amended. For every secondary sequence and all orders of the loops over the
  map of groups, merging an empty primary sequence with it returns exactly the
  secondary transactions whose account number is present, each as often as the input
  has it: none of them is dropped, and those without account number are.
\<close>

theorem merge_empty_primary:
  assumes "range_order (csvByAccount csvTxs) ks1"
    and "range_order (csvByAccount csvTxs) ks2"
  shows "mset (MergeCSVWithStatements ks1 ks2 [] csvTxs) =
           mset (filter (\<lambda>t. StatementAccountNumber t \<noteq> None) csvTxs)"
proof -
  have sub: "set ks2 \<subseteq> set ks1"
    using assms by (simp add: range_order_def)
  have d: "distinct ks2" using assms(2) by (simp add: range_order_def)
  have "(\<exists>k\<in>set ks2. kept_in_group [] k t) \<longleftrightarrow> StatementAccountNumber t \<noteq> None"
    if "t \<in> set csvTxs" for t
    using that assms(2)
    by (auto simp: range_order_def dom_csvByAccount kept_in_group_def group_key_def
        after_cutoff_def FindLatestTransactionDate_def)
  then have "filter (\<lambda>t. \<exists>k\<in>set ks2. kept_in_group [] k t) csvTxs =
             filter (\<lambda>t. StatementAccountNumber t \<noteq> None) csvTxs"
    by (simp cong: filter_cong)
  then show ?thesis
    using mset_concat_groups [OF d, of "[]" csvTxs]
    by (simp add: MergeCSVWithStatements_def newTransactions_char [OF sub])
qed

theorem merge_empty_primary_witness:
  "range_order (csvByAccount interleaved_secondary) [''2222'', ''1111''] \<and>
   mset (MergeCSVWithStatements [''1111'', ''2222''] [''2222'', ''1111''] [] interleaved_secondary) =
     mset interleaved_secondary"
proof -
  have "filter (\<lambda>t. StatementAccountNumber t \<noteq> None) interleaved_secondary = interleaved_secondary"
    by (simp add: interleaved_secondary_def sample_tx_def)
  then show ?thesis
    using merge_empty_primary [OF range_order_interleaved] range_order_interleaved(2)
    by simp
qed

section \<open>Properties of trimming\<close>

declare strip_runes.simps [simp del]

lemma strip_runes_none:
  "\<not> starts_with_any ws s \<Longrightarrow> strip_runes ws s = s"
proof -
  assume "\<not> starts_with_any ws s"
  then have "find (\<lambda>w. w \<noteq> [] \<and> HasPrefix s w) ws = None"
    by (auto simp: starts_with_any_def find_None_iff list_ex_iff)
  then show ?thesis
    by (subst strip_runes.simps) simp
qed

lemma strip_runes_step:
  "find (\<lambda>w. w \<noteq> [] \<and> HasPrefix s w) ws = Some w \<Longrightarrow>
   strip_runes ws s = strip_runes ws (drop (length w) s)"
  by (subst strip_runes.simps) simp

lemma TrimSpace_id:
  "\<not> leading_space s \<Longrightarrow> \<not> trailing_space s \<Longrightarrow> TrimSpace s = s"
  by (simp add: TrimSpace_def TrimLeftSpace_def TrimRightSpace_def leading_space_def
      trailing_space_def strip_runes_none)

lemma starts_with_any_append:
  assumes "\<not> starts_with_any ws a"
    and "\<forall>w\<in>set ws. length a < length w \<longrightarrow> w ! length a \<noteq> c"
  shows "\<not> starts_with_any ws (a @ c # r)"
proof
  assume "starts_with_any ws (a @ c # r)"
  then obtain w where w: "w \<in> set ws" "w \<noteq> []" "HasPrefix (a @ c # r) w"
    by (auto simp: starts_with_any_def list_ex_iff)
  show False
  proof (cases "length w \<le> length a")
    case True
    with w(3) have "HasPrefix a w" by (simp add: HasPrefix_def)
    with w(1,2) assms(1) show False by (auto simp: starts_with_any_def list_ex_iff)
  next
    case False
    then have lt: "length a < length w" by simp
    from w(3) have "take (length w) (a @ c # r) = w" by (simp add: HasPrefix_def)
    then have "w ! length a = take (length w) (a @ c # r) ! length a" by simp
    also have "\<dots> = c" using lt by (simp add: nth_append take_Cons')
    finally show False using assms(2) w(1) lt by blast
  qed
qed

lemma starts_with_any_Nil: "\<not> starts_with_any ws []"
  by (auto simp: starts_with_any_def list_ex_iff HasPrefix_def)

lemma starts_with_any_hd:
  "starts_with_any ws s \<Longrightarrow> s \<noteq> [] \<and> hd s \<in> set (map hd ws)"
proof -
  assume "starts_with_any ws s"
  then obtain w where w: "w \<in> set ws" "w \<noteq> []" "HasPrefix s w"
    by (auto simp: starts_with_any_def list_ex_iff)
  then have t: "take (length w) s = w" and "0 < length w"
    by (simp_all add: HasPrefix_def)
  then have "s \<noteq> []" by auto
  moreover have "hd s = hd w"
    using hd_take [OF \<open>0 < length w\<close>, of s] t by simp
  ultimately show ?thesis using w(1) by auto
qed

lemma space_runes_tail_bytes:
  "\<forall>w\<in>set space_runes. CHR '':'' \<notin> set w"
  "\<forall>w\<in>set (map rev space_runes). CHR '':'' \<notin> set w"
  "\<forall>w\<in>set (map rev space_runes). CHR '' '' \<notin> set (tl w)"
  by (simp_all add: space_runes_def)

lemma leading_space_key_line:
  assumes "\<not> leading_space k"
  shows "\<not> leading_space (k @ CHR '':'' # r)"
  unfolding leading_space_def
proof (rule starts_with_any_append)
  show "\<not> starts_with_any space_runes k" using assms by (simp add: leading_space_def)
  show "\<forall>w\<in>set space_runes. length k < length w \<longrightarrow> w ! length k \<noteq> CHR '':''"
    using space_runes_tail_bytes(1) by (metis nth_mem)
qed

lemma trailing_space_colon: "\<not> trailing_space (l @ [CHR '':''])"
proof -
  have "\<not> starts_with_any (map rev space_runes) ([] @ CHR '':'' # rev l)"
  proof (rule starts_with_any_append)
    show "\<not> starts_with_any (map rev space_runes) []" by (rule starts_with_any_Nil)
    show "\<forall>w\<in>set (map rev space_runes). length ([]::string) < length w \<longrightarrow> w ! length ([]::string) \<noteq> CHR '':''"
      using space_runes_tail_bytes(2) by (metis nth_mem)
  qed
  then show ?thesis by (simp add: trailing_space_def)
qed

lemma trailing_space_value_line:
  assumes "\<not> trailing_space v" and "v \<noteq> []"
  shows "\<not> trailing_space (l @ CHR '' '' # v)"
proof -
  have "\<not> starts_with_any (map rev space_runes) (rev v @ CHR '' '' # rev l)"
  proof (rule starts_with_any_append)
    show "\<not> starts_with_any (map rev space_runes) (rev v)"
      using assms(1) by (simp add: trailing_space_def)
    show "\<forall>w\<in>set (map rev space_runes). length (rev v) < length w \<longrightarrow> w ! length (rev v) \<noteq> CHR '' ''"
    proof (intro ballI impI)
      fix w assume w: "w \<in> set (map rev space_runes)" and lt: "length (rev v) < length w"
      from assms(2) obtain n where n: "length (rev v) = Suc n" by (cases v) auto
      with lt have "w ! length (rev v) = tl w ! n" and "n < length (tl w)"
        by (simp_all add: nth_tl)
      then have "w ! length (rev v) \<in> set (tl w)" by (metis nth_mem)
      with space_runes_tail_bytes(3) w show "w ! length (rev v) \<noteq> CHR '' ''" by metis
    qed
  qed
  then show ?thesis by (simp add: trailing_space_def)
qed

lemma find_space_first:
  "find (\<lambda>w. w \<noteq> [] \<and> HasPrefix (CHR '' '' # s) w) space_runes = Some [CHR '' '']"
  "find (\<lambda>w. w \<noteq> [] \<and> HasPrefix (CHR '' '' # s) w) (map rev space_runes) = Some [CHR '' '']"
  by (simp_all add: space_runes_def HasPrefix_def)

lemma TrimSpace_Nil: "TrimSpace [] = []"
  by (rule TrimSpace_id) (simp_all add: leading_space_def trailing_space_def starts_with_any_Nil)

text \<open>Rules that evaluate the trimming of a given ASCII string.\<close>

lemma strip_runes_Nil: "strip_runes ws [] = []"
  by (rule strip_runes_none) (rule starts_with_any_Nil)

lemma strip_runes_space:
  "strip_runes space_runes (CHR '' '' # s) = strip_runes space_runes s"
  "strip_runes (map rev space_runes) (CHR '' '' # s) = strip_runes (map rev space_runes) s"
  using strip_runes_step [OF find_space_first(1), of s] strip_runes_step [OF find_space_first(2), of s]
  by simp_all

lemma strip_runes_plain:
  "c \<notin> {CHR 0x09, CHR 0x0A, CHR 0x0B, CHR 0x0C, CHR 0x0D, CHR 0x20, CHR 0xC2, CHR 0xE1, CHR 0xE2,
         CHR 0xE3} \<Longrightarrow> strip_runes space_runes (c # s) = c # s"
  "c \<notin> {CHR 0x09, CHR 0x0A, CHR 0x0B, CHR 0x0C, CHR 0x0D, CHR 0x20, CHR 0x85, CHR 0xA0, CHR 0x80,
         CHR 0x81, CHR 0x82, CHR 0x83, CHR 0x84, CHR 0x86, CHR 0x87, CHR 0x88, CHR 0x89, CHR 0x8A,
         CHR 0xA8, CHR 0xA9, CHR 0xAF, CHR 0x9F} \<Longrightarrow>
     strip_runes (map rev space_runes) (c # s) = c # s"
proof -
  assume "c \<notin> {CHR 0x09, CHR 0x0A, CHR 0x0B, CHR 0x0C, CHR 0x0D, CHR 0x20, CHR 0xC2, CHR 0xE1, CHR 0xE2,
         CHR 0xE3}"
  then have "\<not> starts_with_any space_runes (c # s)"
    using starts_with_any_hd [of space_runes "c # s"] by (auto simp: space_runes_def)
  then show "strip_runes space_runes (c # s) = c # s" by (rule strip_runes_none)
next
  assume "c \<notin> {CHR 0x09, CHR 0x0A, CHR 0x0B, CHR 0x0C, CHR 0x0D, CHR 0x20, CHR 0x85, CHR 0xA0, CHR 0x80,
         CHR 0x81, CHR 0x82, CHR 0x83, CHR 0x84, CHR 0x86, CHR 0x87, CHR 0x88, CHR 0x89, CHR 0x8A,
         CHR 0xA8, CHR 0xA9, CHR 0xAF, CHR 0x9F}"
  then have "\<not> starts_with_any (map rev space_runes) (c # s)"
    using starts_with_any_hd [of "map rev space_runes" "c # s"] by (auto simp: space_runes_def)
  then show "strip_runes (map rev space_runes) (c # s) = c # s" by (rule strip_runes_none)
qed

lemmas trim_eval =
  TrimSpace_def TrimLeftSpace_def TrimRightSpace_def strip_runes_Nil strip_runes_space
  strip_runes_plain

section \<open>Properties of the mapping store\<close>

lemma TrimSpace_entry_line:
  assumes "\<not> leading_space k" and "\<not> trailing_space v"
  shows "TrimSpace (entry_line k v) = k @ CHR '':'' # (if v = [] then [] else CHR '' '' # v)"
proof (cases "v = []")
  case False
  have "\<not> trailing_space ((k @ [CHR '':'']) @ CHR '' '' # v)"
    using assms(2) False by (rule trailing_space_value_line)
  then have "\<not> trailing_space (entry_line k v)"
    by (simp add: entry_line_def)
  moreover have "\<not> leading_space (entry_line k v)"
    using leading_space_key_line [OF assms(1)] by (simp add: entry_line_def)
  ultimately show ?thesis using False by (simp add: TrimSpace_id) (simp add: entry_line_def)
next
  case True
  have l: "TrimLeftSpace (entry_line k v) = entry_line k v"
    using leading_space_key_line [OF assms(1)]
    by (simp add: TrimLeftSpace_def strip_runes_none leading_space_def entry_line_def)
  have "strip_runes (map rev space_runes) (CHR '' '' # CHR '':'' # rev k) =
        strip_runes (map rev space_runes) (CHR '':'' # rev k)"
    using strip_runes_step [OF find_space_first(2)] by simp
  also have "\<dots> = CHR '':'' # rev k"
    using trailing_space_colon [of k] by (simp add: strip_runes_none trailing_space_def)
  finally have "TrimRightSpace (entry_line k v) = k @ [CHR '':'']"
    using True by (simp add: TrimRightSpace_def entry_line_def)
  then show ?thesis using True l by (simp add: TrimSpace_def)
qed

lemma TrimSpace_value_part:
  assumes "\<not> leading_space v" and "\<not> trailing_space v"
  shows "TrimSpace (if v = [] then [] else CHR '' '' # v) = v"
proof (cases "v = []")
  case True
  then show ?thesis by (simp add: TrimSpace_Nil)
next
  case False
  have "strip_runes space_runes (CHR '' '' # v) = strip_runes space_runes v"
    using strip_runes_step [OF find_space_first(1)] by simp
  also have "\<dots> = v"
    using assms(1) by (simp add: strip_runes_none leading_space_def)
  finally have "TrimLeftSpace (CHR '' '' # v) = v"
    by (simp add: TrimLeftSpace_def)
  moreover have "TrimRightSpace v = v"
    using assms(2) by (simp add: TrimRightSpace_def strip_runes_none trailing_space_def)
  ultimately show ?thesis using False by (simp add: TrimSpace_def)
qed

lemma dropCR_id:
  assumes "\<not> trailing_space s"
  shows "dropCR s = s"
proof (cases "s \<noteq> [] \<and> last s = CHR 0x0D")
  case False
  then show ?thesis by (auto simp: dropCR_def)
next
  case True
  then have "s = butlast s @ [CHR 0x0D]"
    by (metis append_butlast_last_id)
  then have "rev s = rev (butlast s @ [CHR 0x0D])"
    by simp
  then have r: "rev s = CHR 0x0D # rev (butlast s)"
    by (simp only: rev_append rev.simps append_Cons append_Nil)
  have "HasPrefix (CHR 0x0D # t) [CHR 0x0D]" for t
    by (simp add: HasPrefix_def)
  then have "HasPrefix (rev s) [CHR 0x0D]"
    unfolding r .
  moreover have "[CHR 0x0D] \<in> set (map rev space_runes)"
    by (simp add: space_runes_def)
  ultimately have "trailing_space s"
    by (auto simp: trailing_space_def starts_with_any_def list_ex_iff)
  with assms show ?thesis by simp
qed

lemma dropCR_entry_line:
  assumes "\<not> trailing_space v"
  shows "dropCR (entry_line k v) = entry_line k v"
proof (cases "v = []")
  case True
  then show ?thesis by (simp add: dropCR_def entry_line_def)
next
  case False
  have "\<not> trailing_space ((k @ [CHR '':'']) @ CHR '' '' # v)"
    using assms False by (rule trailing_space_value_line)
  then have "\<not> trailing_space (entry_line k v)"
    by (simp add: entry_line_def)
  then show ?thesis by (rule dropCR_id)
qed

lemma Load_line_entry:
  assumes "storable_key k" and "storable_value v"
  shows "Load_line (dropCR (entry_line k v)) m = m(k \<mapsto> v)"
proof -
  let ?r = "if v = [] then [] else CHR '' '' # v"
  from assms have k: "k \<noteq> []" "CHR '':'' \<notin> set k" "\<not> HasPrefix k ''#''"
    "\<not> leading_space k" "\<not> trailing_space k"
    and v: "\<not> leading_space v" "\<not> trailing_space v"
    by (simp_all add: storable_key_def storable_value_def)
  have line: "TrimSpace (dropCR (entry_line k v)) = k @ CHR '':'' # ?r"
    using dropCR_entry_line [OF v(2)] TrimSpace_entry_line [OF k(4) v(2)] by simp
  have ne: "k @ CHR '':'' # ?r \<noteq> []" by simp
  have nohash: "\<not> HasPrefix (k @ CHR '':'' # ?r) ''#''"
    using k(1,3) by (cases k) (simp_all add: HasPrefix_def)
  have "takeWhile (\<lambda>c. c \<noteq> CHR '':'') (k @ CHR '':'' # r) = k" for r
    using k(2) by (induction k) auto
  then have tw: "takeWhile (\<lambda>c. c \<noteq> CHR '':'') (k @ CHR '':'' # ?r) = k" .
  have "dropWhile (\<lambda>c. c \<noteq> CHR '':'') (k @ CHR '':'' # r) = CHR '':'' # r" for r
    using k(2) by (induction k) auto
  then have dw: "dropWhile (\<lambda>c. c \<noteq> CHR '':'') (k @ CHR '':'' # ?r) = CHR '':'' # ?r" .
  have split: "SplitN2 (k @ CHR '':'' # ?r) (CHR '':'') = [k, ?r]"
    unfolding SplitN2_def tw dw by simp
  have "TrimSpace k = k" using k(4,5) by (rule TrimSpace_id)
  moreover have "TrimSpace ?r = v" using v by (rule TrimSpace_value_part)
  ultimately show ?thesis
    unfolding Load_line_def line Let_def split using ne nohash by simp
qed

lemma header_line_plain:
  "\<not> leading_space header_line" "\<not> trailing_space header_line"
  by (simp_all add: leading_space_def trailing_space_def starts_with_any_def space_runes_def
      HasPrefix_def header_line_def)

lemma Load_line_header: "Load_line (dropCR header_line) m = m"
proof -
  have "dropCR header_line = header_line"
    using header_line_plain(2) by (rule dropCR_id)
  moreover have "TrimSpace header_line = header_line"
    using header_line_plain by (rule TrimSpace_id)
  moreover have "HasPrefix header_line ''#''"
    by (simp add: HasPrefix_def header_line_def)
  ultimately show ?thesis by (simp add: Load_line_def)
qed

lemma split_lines_line:
  "newline \<notin> set l \<Longrightarrow> split_lines (l @ newline # rest) cur = (cur @ l) # split_lines rest []"
  by (induction l arbitrary: cur) auto

lemma split_lines_entries:
  assumes "\<forall>k\<in>set ks. \<exists>v. m k = Some v \<and> newline \<notin> set (entry_line k v)"
  shows "split_lines (concat (map (\<lambda>k. case m k of None \<Rightarrow> [] | Some v \<Rightarrow> entry_line k v @ [newline]) ks)) [] =
         map (\<lambda>k. entry_line k (the (m k))) ks"
  using assms
proof (induction ks)
  case Nil
  then show ?case by simp
next
  case (Cons k ks)
  then obtain v where v: "m k = Some v" "newline \<notin> set (entry_line k v)" by auto
  show ?case
    using Cons v split_lines_line [OF v(2), where cur = "[]"] by simp
qed

lemma Load_loop_entries:
  assumes "\<forall>k\<in>set ks. \<exists>v. m k = Some v \<and> storable_key k \<and> storable_value v \<and>
             length (entry_line k v) < MaxScanTokenSize"
  shows "Load_loop (map (\<lambda>k. entry_line k (the (m k))) ks) m0 =
         (fold (\<lambda>k a. a(k \<mapsto> the (m k))) ks m0, None)"
  using assms
proof (induction ks arbitrary: m0)
  case Nil
  then show ?case by simp
next
  case (Cons k ks)
  then obtain v where v: "m k = Some v" "storable_key k" "storable_value v"
    "length (entry_line k v) < MaxScanTokenSize" by auto
  have "Load_loop (map (\<lambda>k. entry_line k (the (m k))) (k # ks)) m0 =
        Load_loop (map (\<lambda>k. entry_line k (the (m k))) ks) (Load_line (dropCR (entry_line k v)) m0)"
    using v(1,4) by simp
  also have "\<dots> = Load_loop (map (\<lambda>k. entry_line k (the (m k))) ks) (m0(k \<mapsto> the (m k)))"
    unfolding Load_line_entry [OF v(2,3)] using v(1) by simp
  also have "\<dots> = (fold (\<lambda>k a. a(k \<mapsto> the (m k))) ks (m0(k \<mapsto> the (m k))), None)"
    using Cons.prems by (intro Cons.IH) simp
  also have "\<dots> = (fold (\<lambda>k a. a(k \<mapsto> the (m k))) (k # ks) m0, None)"
    by (simp only: fold.simps o_apply)
  finally show ?case .
qed

lemma header_line_no_newline: "newline \<notin> set header_line"
  by (simp add: header_line_def newline_def)

lemma header_line_short: "length header_line < MaxScanTokenSize"
  by (simp add: header_line_def MaxScanTokenSize_def)

lemma Load_loop_Save_text:
  assumes "range_order m ks"
    and "\<forall>k v. m k = Some v \<longrightarrow> storable_key k \<and> storable_value v \<and>
           length (entry_line k v) < MaxScanTokenSize"
  shows "Load_loop (split_lines (Save_text ks m) []) Map.empty = (m, None)"
proof -
  have dom: "set ks = dom m" using assms(1) by (simp add: range_order_def)
  have ok: "\<forall>k\<in>set ks. \<exists>v. m k = Some v \<and> storable_key k \<and> storable_value v \<and>
             length (entry_line k v) < MaxScanTokenSize"
    using assms(2) dom by auto
  have nl: "\<forall>k\<in>set ks. \<exists>v. m k = Some v \<and> newline \<notin> set (entry_line k v)"
  proof
    fix k assume "k \<in> set ks"
    with ok obtain v where v: "m k = Some v" "storable_key k" "storable_value v" by blast
    then have "newline \<notin> set (entry_line k v)"
      by (auto simp: storable_key_def storable_value_def entry_line_def newline_def)
    with v(1) show "\<exists>v. m k = Some v \<and> newline \<notin> set (entry_line k v)" by blast
  qed
  have "split_lines (Save_text ks m) [] =
        header_line # map (\<lambda>k. entry_line k (the (m k))) ks"
    unfolding Save_text_def
    using split_lines_line [OF header_line_no_newline, where cur = "[]"] split_lines_entries [OF nl]
    by simp
  then have "Load_loop (split_lines (Save_text ks m) []) Map.empty =
             (fold (\<lambda>k a. a(k \<mapsto> the (m k))) ks Map.empty, None)"
    using header_line_short Load_line_header Load_loop_entries [OF ok] by simp
  moreover have "fold (\<lambda>k a. a(k \<mapsto> the (m k))) ks Map.empty = m"
  proof
    fix x
    show "fold (\<lambda>k a. a(k \<mapsto> the (m k))) ks Map.empty x = m x"
      unfolding fold_upd_lookup using dom by (cases "m x") auto
  qed
  ultimately show ?thesis by simp
qed

lemma sample_store_storable:
  "storable_key ''3802''" "storable_value ''Visa Card''"
  "storable_key ''05172-5163878''" "storable_value ''''"
  by (simp_all add: storable_key_def storable_value_def leading_space_def trailing_space_def
      starts_with_any_def space_runes_def HasPrefix_def newline_def)

lemma long_key_storable: "storable_key long_key"
proof -
  have ne: "long_key \<noteq> []" and hd: "hd long_key = CHR ''a''" and rv: "rev long_key = long_key"
    by (simp_all add: long_key_def)
  have "\<not> starts_with_any space_runes long_key"
    using starts_with_any_hd [of space_runes long_key] hd by (auto simp: space_runes_def)
  moreover have "\<not> starts_with_any (map rev space_runes) long_key"
    using starts_with_any_hd [of "map rev space_runes" long_key] hd by (auto simp: space_runes_def)
  moreover have "\<not> HasPrefix long_key ''#''"
  proof
    assume "HasPrefix long_key ''#''"
    then have "take (Suc 0) long_key = ''#''"
      by (simp add: HasPrefix_def)
    then have "hd (take (Suc 0) long_key) = CHR ''#''"
      by simp
    then have "hd long_key = CHR ''#''"
      by (simp add: hd_take)
    with hd show False by simp
  qed
  moreover have "CHR '':'' \<notin> set long_key" "newline \<notin> set long_key"
    by (simp_all add: long_key_def newline_def)
  ultimately show ?thesis
    using ne by (simp add: storable_key_def leading_space_def trailing_space_def rv)
qed

text \<open>
  Claim C9, as stated, fails: a key of 65536 letters \<^verbatim>\<open>a\<close> meets every condition of
  the claim, but the line that \<^verbatim>\<open>Save\<close> writes for it does not fit the buffer of
  the scanner, so \<^verbatim>\<open>Load\<close> returns an error and the map stays empty.
\<close>

theorem store_round_trip_counterexample:
  "storable_key long_key \<and> storable_value ''b'' \<and>
   range_order [long_key \<mapsto> ''b''] [long_key] \<and>
   Load \<lparr>filePath = ''account-mappings.txt'', Mappings = Map.empty\<rparr>
     (fst (Save Written [long_key]
             \<lparr>filePath = ''account-mappings.txt'', Mappings = [long_key \<mapsto> ''b'']\<rparr> None)) =
     (\<lparr>filePath = ''account-mappings.txt'', Mappings = Map.empty\<rparr>, Some ReadFailed)"
proof -
  have v: "storable_value ''b''"
    by (simp add: storable_value_def leading_space_def trailing_space_def
      starts_with_any_def space_runes_def HasPrefix_def newline_def)
  have ro: "range_order [long_key \<mapsto> ''b''] [long_key]"
    by (simp add: range_order_def)
  have nl: "newline \<notin> set (entry_line long_key ''b'')"
    by (simp add: entry_line_def long_key_def newline_def)
  have "Save_text [long_key] [long_key \<mapsto> ''b''] =
        header_line @ newline # (entry_line long_key ''b'' @ newline # [])"
    by (simp add: Save_text_def)
  then have "split_lines (Save_text [long_key] [long_key \<mapsto> ''b'']) [] =
        [header_line, entry_line long_key ''b'']"
    using split_lines_line [OF header_line_no_newline, where cur = "[]"]
      split_lines_line [OF nl, where cur = "[]" and rest = "[]"]
    by simp
  moreover have "MaxScanTokenSize \<le> length (entry_line long_key ''b'')"
    by (simp add: entry_line_def long_key_def MaxScanTokenSize_def)
  ultimately have "Load_loop (split_lines (Save_text [long_key] [long_key \<mapsto> ''b'']) []) Map.empty =
      (Map.empty, Some ReadFailed)"
    using header_line_short Load_line_header by simp
  then show ?thesis
    using long_key_storable v ro by (simp add: Load_def Save_def)
qed

text \<open>
  Claim C9, amended. For every store whose keys are non-empty, contain no colon and no
  newline, do not begin with \<^verbatim>\<open>#\<close> and carry no leading or trailing white space,
  whose values contain no newline and carry no leading or trailing white space, and
  whose lines \<^verbatim>\<open>key: value\<close> are shorter than 65536 bytes: for every order in which
  \<^verbatim>\<open>Save\<close> ranges over the map, \<^verbatim>\<open>Load\<close> into an empty map on the file that
  \<^verbatim>\<open>Save\<close> has written returns no error and gives back exactly the map saved,
  and so does \<^verbatim>\<open>NewStore\<close> on that file.
\<close>

theorem store_round_trip:
  assumes "range_order (Mappings s) ks"
    and "\<forall>k v. Mappings s k = Some v \<longrightarrow>
           storable_key k \<and> storable_value v \<and> length (entry_line k v) < MaxScanTokenSize"
  shows "Load (s\<lparr>Mappings := Map.empty\<rparr>) (fst (Save Written ks s d)) = (s, None) \<and>
         NewStore (filePath s) (fst (Save Written ks s d)) = Inr s"
proof -
  have l: "Load (s\<lparr>Mappings := Map.empty\<rparr>) (fst (Save Written ks s d)) = (s, None)"
    using Load_loop_Save_text [OF assms] by (simp add: Load_def Save_def)
  have e: "\<lparr>filePath = filePath s, Mappings = Map.empty\<rparr> = s\<lparr>Mappings := Map.empty\<rparr>"
    by simp
  have n: "fst (Save Written ks s d) \<noteq> None"
    by (simp add: Save_def)
  have "NewStore (filePath s) (fst (Save Written ks s d)) = Inr s"
    unfolding NewStore_def Let_def e l using n by auto
  with l show ?thesis by simp
qed

theorem store_round_trip_witness:
  "range_order (Mappings sample_store) [''05172-5163878'', ''3802''] \<and>
   Save Written [''05172-5163878'', ''3802''] sample_store None =
     (Some (''# Account mappings: statement_account -> arian_account'' @ [newline] @
            ''05172-5163878: '' @ [newline] @ ''3802: Visa Card'' @ [newline]), None) \<and>
   Load (sample_store\<lparr>Mappings := Map.empty\<rparr>)
     (fst (Save Written [''05172-5163878'', ''3802''] sample_store None)) = (sample_store, None) \<and>
   NewStore ''account-mappings.txt''
     (fst (Save Written [''05172-5163878'', ''3802''] sample_store None)) = Inr sample_store"
proof -
  have fp: "filePath sample_store = ''account-mappings.txt''"
    by (simp add: sample_store_def)
  have ro: "range_order (Mappings sample_store) [''05172-5163878'', ''3802'']"
    by (auto simp: range_order_def sample_store_def)
  have ok: "\<forall>k v. Mappings sample_store k = Some v \<longrightarrow>
           storable_key k \<and> storable_value v \<and> length (entry_line k v) < MaxScanTokenSize"
    using sample_store_storable
    by (auto simp: sample_store_def entry_line_def MaxScanTokenSize_def split: if_splits)
  have "Save Written [''05172-5163878'', ''3802''] sample_store None =
     (Some (''# Account mappings: statement_account -> arian_account'' @ [newline] @
            ''05172-5163878: '' @ [newline] @ ''3802: Visa Card'' @ [newline]), None)"
    by (simp add: Save_def Save_text_def sample_store_def header_line_def entry_line_def)
  with ro store_round_trip [OF ro ok, of None] show ?thesis by (simp add: fp)
qed

text \<open>
  The buffered writer loses no byte and changes no order: the writes made and the
  bytes left in the buffer are the text of \<^verbatim>\<open>Save\<close>. \<^verbatim>\<open>Save\<close> returns an error
  exactly when \<^verbatim>\<open>os.Create\<close> fails or a write of the loop fails; a failing write of
  the deferred flush leaves a proper prefix of the text in the file and returns no
  error, and a text that fits the buffer reaches the file through that flush only.
\<close>

lemma WriteString_concat:
  "WriteString buf s = (ws, buf') \<Longrightarrow> concat ws @ buf' = buf @ s"
  by (auto simp: WriteString_def Let_def split: if_splits)

lemma Save_writes_concat:
  "Save_writes ss buf = (ws, buf') \<Longrightarrow> concat ws @ buf' = buf @ concat ss"
proof (induction ss arbitrary: buf ws buf')
  case Nil
  then show ?case by simp
next
  case (Cons s ss)
  obtain ws1 b1 where w1: "WriteString buf s = (ws1, b1)"
    by (cases "WriteString buf s")
  obtain ws2 b2 where w2: "Save_writes ss b1 = (ws2, b2)"
    by (cases "Save_writes ss b1")
  from Cons.prems w1 w2 have eq: "ws = ws1 @ ws2" "buf' = b2"
    by simp_all
  from WriteString_concat [OF w1] Cons.IH [OF w2] eq show ?case
    by simp
qed

lemma concat_Save_strings: "concat (Save_strings ks m) = Save_text ks m"
  by (simp add: Save_strings_def Save_text_def)

lemma Save_small_file:
  assumes "length (Save_text ks (Mappings s)) \<le> defaultBufSize"
  shows "Save (WriteFails 0 p) ks s d =
           (Some (take p (Save_text ks (Mappings s))), None)"
proof -
  have small: "Save_writes ss buf = ([], buf @ concat ss)"
    if "length buf + length (concat ss) \<le> defaultBufSize" for ss buf
    using that
  proof (induction ss arbitrary: buf)
    case Nil
    then show ?case by simp
  next
    case (Cons x ss)
    then have "length x \<le> defaultBufSize - length buf"
      by simp
    then have "WriteString buf x = ([], buf @ x)"
      by (simp add: WriteString_def)
    moreover have "Save_writes ss (buf @ x) = ([], (buf @ x) @ concat ss)"
      using Cons.prems by (intro Cons.IH) simp
    ultimately show ?case by simp
  qed
  have "Save_writes (Save_strings ks (Mappings s)) [] = ([], Save_text ks (Mappings s))"
    using small [of "[]" "Save_strings ks (Mappings s)"] assms
    by (simp add: concat_Save_strings)
  moreover have "Save_text ks (Mappings s) \<noteq> []"
    by (simp add: Save_text_def header_line_def)
  ultimately show ?thesis
    by (simp add: Save_def)
qed

lemma Save_error_iff:
  "snd (Save io ks s d) \<noteq> None \<longleftrightarrow>
     io = CreateFails \<or>
     (\<exists>j p. io = WriteFails j p \<and> j < length (fst (Save_writes (Save_strings ks (Mappings s)) [])))"
proof (cases io)
  case Written
  then show ?thesis by (simp add: Save_def)
next
  case CreateFails
  then show ?thesis by (simp add: Save_def)
next
  case (WriteFails j p)
  obtain ws buf where w: "Save_writes (Save_strings ks (Mappings s)) [] = (ws, buf)"
    by (cases "Save_writes (Save_strings ks (Mappings s)) []")
  show ?thesis unfolding WriteFails by (simp add: Save_def w)
qed

lemma Save_flush_failure:
  assumes "Save_writes (Save_strings ks (Mappings s)) [] = (ws, buf)" and "p < length buf"
  shows "Save (WriteFails (length ws) p) ks s d = (Some (concat ws @ take p buf), None)"
    and "concat ws @ take p buf \<noteq> Save_text ks (Mappings s)"
proof -
  from assms(2) have ne: "buf \<noteq> []" by auto
  with assms(1) show "Save (WriteFails (length ws) p) ks s d = (Some (concat ws @ take p buf), None)"
    by (simp add: Save_def)
  from Save_writes_concat [OF assms(1)] have eq: "concat ws @ buf = Save_text ks (Mappings s)"
    by (simp add: concat_Save_strings)
  have "length (concat ws @ take p buf) < length (concat ws @ buf)"
    using assms(2) by simp
  then have "concat ws @ take p buf \<noteq> concat ws @ buf" by (rule contrapos_pn) simp
  then show "concat ws @ take p buf \<noteq> Save_text ks (Mappings s)" unfolding eq .
qed

section \<open>Properties of the account resolution\<close>

lemma pass2_step_Inr:
  assumes "pass2_step w accts store tx = Inr tx'"
  shows "\<exists>a\<in>set accts. tx' = tx\<lparr>AccountID := Id' a\<rparr>"
  using assms
  by (auto simp: pass2_step_def Let_def findMatchingAccount_def ResolveAccount_def
      split: if_splits option.splits dest: find_Some_set)

lemma pass2_Inr:
  "pass2 w accts store txs stats = Inr (txs', stats') \<Longrightarrow>
   list_all2 (\<lambda>tx tx'. \<exists>a\<in>set accts. tx' = tx\<lparr>AccountID := Id' a\<rparr>) txs txs'"
proof (induction txs arbitrary: stats txs')
  case Nil
  then show ?case by simp
next
  case (Cons tx txs)
  from Cons.prems obtain tx1 txs1 where
    step: "pass2_step w accts store tx = Inr tx1" and
    rest: "pass2 w accts store txs (bump_stats stats (account_name tx)) = Inr (txs1, stats')" and
    eq: "txs' = tx1 # txs1"
    by (auto split: sum.splits prod.splits)
  from pass2_step_Inr [OF step] Cons.IH [OF rest] eq show ?case by simp
qed

lemma save_mapping_fields:
  "accounts (save_mapping w s k v) = accounts s"
  "askedMappings (save_mapping w s k v) = askedMappings s"
  "prompts (save_mapping w s k v) = prompts s"
  "created (save_mapping w s k v) = created s"
  "mappingStore (save_mapping w s k v) = (mappingStore s)\<lparr>Mappings := (Mappings (mappingStore s))(k \<mapsto> v)\<rparr>"
  by (simp_all add: save_mapping_def AddMapping_def Let_def split: prod.splits)

lemma resolve_by_prompt_accounts:
  "resolve_by_prompt w u s tx = Inr s' \<Longrightarrow> \<exists>cs. accounts s' = accounts s @ cs"
  by (auto simp: resolve_by_prompt_def Let_def save_mapping_fields
      split: option.splits if_splits prod.splits)

lemma pass1_step_accounts:
  "pass1_step w u s tx = Inr s' \<Longrightarrow> \<exists>cs. accounts s' = accounts s @ cs"
  by (auto simp: pass1_step_def Let_def split: option.splits if_splits
      dest!: resolve_by_prompt_accounts)

lemma pass1_accounts:
  "pass1 w u txs s = Inr s' \<Longrightarrow> \<exists>cs. accounts s' = accounts s @ cs"
proof (induction txs arbitrary: s)
  case Nil
  then show ?case by simp
next
  case (Cons tx txs)
  from Cons.prems obtain s1 where
    step: "pass1_step w u s tx = Inr s1" and rest: "pass1 w u txs s1 = Inr s'"
    by (auto split: sum.splits)
  from pass1_step_accounts [OF step] Cons.IH [OF rest] show ?case by auto
qed

text \<open>Unfolding a run on given data.\<close>

lemmas run_defs_unsaved =
  resolve_def pass1_step_def resolve_by_prompt_def PromptForAccountMapping_def
  sample_world_def save_mapping_def AddMapping_def findMatchingAccount_def
  ResolveAccount_def FindMapping_def pass2_step_def initial_state_def account_name_def
  asked_def empty_store_def visa_tx_def numbered_tx_def convertToAccountType_def
  OptionNewAccount_def EqualFold_ascii_def ascii_lower_def bump_stats_def Let_def
  everyday_account_def visa_account_def ParseInt_def ParseUint_def is_digit_def

lemmas run_defs = run_defs_unsaved Save_def

lemma Save_text_sample:
  "Save_text [''3802''] [''3802'' \<mapsto> ''3802''] =
     header_line @ [newline] @ ''3802: 3802'' @ [newline]"
  by (simp add: Save_text_def entry_line_def)

lemma Save_text_sample_fits:
  "length (Save_text [''3802''] [''3802'' \<mapsto> ''3802'']) \<le> defaultBufSize"
  by (simp add: Save_text_def entry_line_def header_line_def defaultBufSize_def)

lemma Save_sample_flush:
  "Save (WriteFails 0 0) [''3802''] \<lparr>filePath = f, Mappings = [''3802'' \<mapsto> ''3802'']\<rparr> d =
     (Some [], None)"
  using Save_small_file [of "[''3802'']" "\<lparr>filePath = f, Mappings = [''3802'' \<mapsto> ''3802'']\<rparr>" 0 d]
    Save_text_sample_fits
  by simp

lemma scenario_create_new:
  "map_sum fst (\<lambda>(txs', stats, s). (map AccountID txs', map Id' (accounts s), prompts s,
       Mappings (mappingStore s) ''3802'', warnings s))
     (resolve (sample_world (Some OptionNewAccount) Written [''3802'']) ''user'' [] empty_store None
        [visa_tx 1, visa_tx 2]) =
   Inr ([5, 5], [5], [(''3802'', ''visa'')], Some ''3802'', [])"
  by (simp add: run_defs)

lemma scenario_save_fails:
  "map_sum fst (\<lambda>(txs', stats, s). (map AccountID txs', map Id' (accounts s), prompts s,
       Mappings (mappingStore s) ''3802'', warnings s, disk s))
     (resolve (sample_world (Some OptionNewAccount) CreateFails [''3802'']) ''user'' [] empty_store None
        [visa_tx 1, visa_tx 2]) =
   Inr ([5, 5], [5], [(''3802'', ''visa'')], Some ''3802'', [SaveMappingFailed CreateFailed], None)"
  by (simp add: run_defs)

text \<open>
  Claim C2. For every world, transaction list, account snapshot and store: if the
  first loop followed by the second ends without fatal error, then every transaction
  comes out with nothing but \<^verbatim>\<open>AccountID\<close> changed, to the identifier of an account
  of the final snapshot, and the final snapshot is the initial one followed by the
  accounts appended in the first loop.
\<close>

theorem resolved_ids_in_snapshot:
  assumes "resolve w userID accts store d txs = Inr (txs', stats, s)"
  shows "list_all2 (\<lambda>tx tx'. \<exists>a\<in>set (accounts s). tx' = tx\<lparr>AccountID := Id' a\<rparr>) txs txs' \<and>
         (\<forall>tx'\<in>set txs'. \<exists>a\<in>set (accounts s). AccountID tx' = Id' a) \<and>
         (\<exists>cs. accounts s = accts @ cs)"
proof -
  from assms have p1: "pass1 w userID txs (initial_state accts store d) = Inr s"
    and p2: "pass2 w (accounts s) (mappingStore s) txs Map.empty = Inr (txs', stats)"
    by (auto simp: resolve_def split: sum.splits prod.splits)
  have l: "list_all2 (\<lambda>tx tx'. \<exists>a\<in>set (accounts s). tx' = tx\<lparr>AccountID := Id' a\<rparr>) txs txs'"
    using pass2_Inr [OF p2] .
  have "\<exists>a\<in>set (accounts s). AccountID tx' = Id' a" if "tx' \<in> set txs'" for tx'
  proof -
    from that obtain i where i: "i < length txs'" "txs' ! i = tx'"
      by (auto simp: in_set_conv_nth)
    with l have "\<exists>a\<in>set (accounts s). txs' ! i = (txs ! i)\<lparr>AccountID := Id' a\<rparr>"
      by (auto simp: list_all2_conv_all_nth)
    with i(2) show ?thesis by auto
  qed
  moreover from pass1_accounts [OF p1] have "\<exists>cs. accounts s = accts @ cs"
    by (simp add: initial_state_def)
  ultimately show ?thesis using l by blast
qed

theorem resolved_ids_in_snapshot_witness:
  "\<exists>txs' stats s.
     resolve (sample_world (Some OptionNewAccount) Written [''3802'']) ''user'' [] empty_store None
       [visa_tx 1, visa_tx 2] = Inr (txs', stats, s) \<and>
     map AccountID txs' = [5, 5] \<and> map Id' (accounts s) = [5] \<and>
     (\<forall>tx'\<in>set txs'. \<exists>a\<in>set (accounts s). AccountID tx' = Id' a)"
proof -
  let ?r = "resolve (sample_world (Some OptionNewAccount) Written [''3802'']) ''user'' [] empty_store None
       [visa_tx 1, visa_tx 2]"
  from scenario_create_new obtain txs' stats s where r: "?r = Inr (txs', stats, s)"
    and v: "map AccountID txs' = [5, 5]" "map Id' (accounts s) = [5]"
    by (cases ?r) auto
  from resolved_ids_in_snapshot [OF r]
  have "\<forall>tx'\<in>set txs'. \<exists>a\<in>set (accounts s). AccountID tx' = Id' a"
    by (rule conjunct1 [OF conjunct2])
  with r v show ?thesis by (intro exI conjI)
qed

lemma resolve_by_prompt_inv:
  assumes "distinct (prompts s)"
    and "\<forall>p\<in>set (prompts s). asked (askedMappings s) (fst p @ ''|'' @ snd p)"
    and "asked (askedMappings s) (mapping_key tx)"
    and "(account_name tx, StatementAccountType tx) \<notin> set (prompts s)"
  shows "prompt_inv (outcome_state (resolve_by_prompt w u s tx))"
  using assms
  by (auto simp: resolve_by_prompt_def Let_def prompt_inv_def outcome_state_def mapping_key_def
      save_mapping_fields split: option.splits if_splits prod.splits)

lemma pass1_step_inv:
  assumes "prompt_inv s"
  shows "prompt_inv (outcome_state (pass1_step w u s tx))"
proof (cases "asked (askedMappings s) (mapping_key tx)")
  case True
  then show ?thesis using assms
    by (simp add: pass1_step_def Let_def mapping_key_def outcome_state_def)
next
  case False
  let ?s1 = "s\<lparr>askedMappings := (askedMappings s)(mapping_key tx \<mapsto> True)\<rparr>"
  have fresh: "(account_name tx, StatementAccountType tx) \<notin> set (prompts s)"
    using assms False by (auto simp: prompt_inv_def mapping_key_def)
  have keep: "\<forall>p\<in>set (prompts s). asked (askedMappings ?s1) (fst p @ ''|'' @ snd p)"
    using assms by (auto simp: prompt_inv_def asked_def)
  have now: "asked (askedMappings ?s1) (mapping_key tx)"
    by (simp add: asked_def)
  have d: "distinct (prompts s)" using assms by (simp add: prompt_inv_def)
  have base: "prompt_inv (?s1\<lparr>warnings := ws\<rparr>)" for ws
    using d keep by (simp add: prompt_inv_def)
  have base': "prompt_inv ?s1"
    using d keep by (simp add: prompt_inv_def)
  have rp: "prompt_inv (outcome_state (resolve_by_prompt w u (?s1\<lparr>warnings := ws\<rparr>) tx))" for ws
    using d keep now fresh by (intro resolve_by_prompt_inv) simp_all
  have rp': "prompt_inv (outcome_state (resolve_by_prompt w u ?s1 tx))"
    using d keep now fresh by (intro resolve_by_prompt_inv) simp_all
  show ?thesis
    using False base base' rp rp'
    by (auto simp: pass1_step_def Let_def mapping_key_def outcome_state_def
        split: option.splits)
qed

lemma pass1_inv:
  "prompt_inv s \<Longrightarrow> prompt_inv (outcome_state (pass1 w u txs s))"
proof (induction txs arbitrary: s)
  case Nil
  then show ?case by (simp add: outcome_state_def)
next
  case (Cons tx txs)
  show ?case
  proof (cases "pass1_step w u s tx")
    case (Inl e)
    with pass1_step_inv [OF Cons.prems, of w u tx] show ?thesis
      by (simp add: outcome_state_def)
  next
    case (Inr s1)
    with pass1_step_inv [OF Cons.prems, of w u tx] have "prompt_inv s1"
      by (simp add: outcome_state_def)
    from Cons.IH [OF this] Inr show ?thesis by simp
  qed
qed

text \<open>
  Claim C3. For every world, transaction list, account snapshot and store, whether the
  first loop ends or aborts: the prompt is called at most once for each account
  identity key, the pair of account name (the account number, or \<^verbatim>\<open>Unknown\<close>) and
  account type, however many transactions share the key.
\<close>

theorem callback_once_per_key:
  "count_list (prompts (outcome_state (pass1 w userID txs (initial_state accts store d)))) key \<le> 1"
proof -
  have "prompt_inv (initial_state accts store d)"
    by (simp add: prompt_inv_def initial_state_def)
  from pass1_inv [OF this, of w userID txs]
  have "distinct (prompts (outcome_state (pass1 w userID txs (initial_state accts store d))))"
    by (simp add: prompt_inv_def)
  then show ?thesis by (rule distinct_count_le_1)
qed

theorem callback_once_per_key_witness:
  "prompts (outcome_state (pass1 (sample_world (Some OptionNewAccount) Written [''3802'']) ''user''
      [visa_tx 1, visa_tx 2] (initial_state [] empty_store None))) = [(''3802'', ''visa'')] \<and>
   count_list (prompts (outcome_state (pass1 (sample_world (Some OptionNewAccount) Written [''3802''])
      ''user'' [visa_tx 1, visa_tx 2] (initial_state [] empty_store None)))) (''3802'', ''visa'') \<le> 1"
proof
  show "prompts (outcome_state (pass1 (sample_world (Some OptionNewAccount) Written [''3802'']) ''user''
      [visa_tx 1, visa_tx 2] (initial_state [] empty_store None))) = [(''3802'', ''visa'')]"
    by (simp add: run_defs outcome_state_def)
  show "count_list (prompts (outcome_state (pass1 (sample_world (Some OptionNewAccount) Written [''3802''])
      ''user'' [visa_tx 1, visa_tx 2] (initial_state [] empty_store None)))) (''3802'', ''visa'') \<le> 1"
    by (rule callback_once_per_key)
qed

lemma pass2_step_Inl_iff:
  "isl (pass2_step w accts store tx) \<longleftrightarrow> unresolvable w accts store tx"
  by (auto simp: pass2_step_def unresolvable_def Let_def split: option.splits)

lemma pass2_Inl_iff:
  "isl (pass2 w accts store txs stats) \<longleftrightarrow> (\<exists>tx\<in>set txs. unresolvable w accts store tx)"
proof (induction txs arbitrary: stats)
  case Nil
  then show ?case by simp
next
  case (Cons tx txs)
  show ?case
  proof (cases "pass2_step w accts store tx")
    case (Inl e)
    then have "unresolvable w accts store tx"
      using pass2_step_Inl_iff [of w accts store tx] by simp
    with Inl show ?thesis by simp
  next
    case (Inr tx')
    then have "\<not> unresolvable w accts store tx"
      using pass2_step_Inl_iff [of w accts store tx] by simp
    with Inr Cons.IH [of "bump_stats stats (account_name tx)"] show ?thesis
      by (auto split: sum.splits)
  qed
qed

text \<open>
  Claim C7, as stated, fails: with an empty store and an account named 3802 of type
  credit card, the first loop resolves the transaction of account 3802 by name and
  type, without prompt, and writes no entry. The second loop finds no entry for the
  transaction and resolves it by name and type again, to account 9, without fatal
  error.
\<close>

theorem pass2_auto_match_counterexample:
  "map_sum fst (\<lambda>(txs', stats, s). (map AccountID txs', prompts s,
       Mappings (mappingStore s) (account_name (visa_tx 1))))
     (resolve (sample_world None Written []) ''user'' [visa_account] empty_store None [visa_tx 1]) =
     Inr ([9], [], None) \<and>
   map_sum id (\<lambda>(txs', stats). map AccountID txs')
     (pass2 (sample_world None Written []) [visa_account] empty_store [visa_tx 1] Map.empty) = Inr [9]"
  by (simp add: run_defs)

text \<open>
  Claim C7, amended. The second loop aborts with a fatal error exactly when some
  transaction either has no mapped name (no entry, or an empty one) and no account
  matches its account name and type, or has a mapped name that no account of the
  snapshot carries. A transaction without entry is recovered by the match on name and
  type when there is one.
\<close>

theorem pass2_fatal_iff:
  "(\<exists>e. pass2 w accts store txs stats = Inl e) \<longleftrightarrow>
     (\<exists>tx\<in>set txs.
        if FindMapping store (account_name tx) = []
        then findMatchingAccount w accts (account_name tx) (StatementAccountType tx) = None
        else ResolveAccount w (FindMapping store (account_name tx)) accts = None)"
  using pass2_Inl_iff [of w accts store txs stats]
  by (cases "pass2 w accts store txs stats") (simp_all add: unresolvable_def)

theorem pass2_fatal_iff_witness:
  "(\<exists>e. pass2 (sample_world None Written []) [] empty_store [visa_tx 1] Map.empty = Inl e) \<and>
   FindMapping empty_store (account_name (visa_tx 1)) = [] \<and>
   findMatchingAccount (sample_world None Written []) [] (account_name (visa_tx 1))
     (StatementAccountType (visa_tx 1)) = None"
proof -
  have a: "FindMapping empty_store (account_name (visa_tx 1)) = []"
    by (simp add: FindMapping_def empty_store_def)
  have b: "findMatchingAccount (sample_world None Written []) [] (account_name (visa_tx 1))
     (StatementAccountType (visa_tx 1)) = None"
    by (simp add: findMatchingAccount_def)
  have "\<exists>e. pass2 (sample_world None Written []) [] empty_store [visa_tx 1] Map.empty = Inl e"
    by (rule pass2_fatal_iff [THEN iffD2]) (simp add: a b)
  with a b show ?thesis by simp
qed

lemma pass2_step_same_name:
  assumes "account_name tx1 = account_name tx2"
    and "FindMapping store (account_name tx1) \<noteq> []"
  shows "map_sum id AccountID (pass2_step w accts store tx1) =
         map_sum id AccountID (pass2_step w accts store tx2)"
  using assms by (simp add: pass2_step_def Let_def split: option.splits)

lemma resolve_by_prompt_dom:
  "dom (Mappings (mappingStore (outcome_state (resolve_by_prompt w u s tx)))) \<subseteq>
     insert (account_name tx) (dom (Mappings (mappingStore s)))"
  by (auto simp: resolve_by_prompt_def Let_def outcome_state_def save_mapping_fields
      split: option.splits if_splits prod.splits)

lemma pass1_step_dom:
  "dom (Mappings (mappingStore (outcome_state (pass1_step w u s tx)))) \<subseteq>
     insert (account_name tx) (dom (Mappings (mappingStore s)))"
proof -
  have a: "dom (Mappings (mappingStore (outcome_state (resolve_by_prompt w u s' tx)))) \<subseteq>
     insert (account_name tx) (dom (Mappings (mappingStore s)))"
    if "mappingStore s' = mappingStore s" for s'
    using resolve_by_prompt_dom [of w u s' tx] that by simp
  have b: "dom (Mappings (mappingStore s)) \<subseteq> insert (account_name tx) (dom (Mappings (mappingStore s)))"
    by auto
  show ?thesis
    unfolding pass1_step_def Let_def
    by (simp add: a b outcome_state_def [of "Inr _"] split: option.splits)
qed

lemma pass1_dom:
  "dom (Mappings (mappingStore (outcome_state (pass1 w u txs s)))) \<subseteq>
     dom (Mappings (mappingStore s)) \<union> account_name ` set txs"
proof (induction txs arbitrary: s)
  case Nil
  then show ?case by (simp add: outcome_state_def)
next
  case (Cons tx txs)
  show ?case
  proof (cases "pass1_step w u s tx")
    case (Inl e)
    with pass1_step_dom [of w u s tx] show ?thesis
      by (auto simp: outcome_state_def)
  next
    case (Inr s1)
    with pass1_step_dom [of w u s tx]
    have "dom (Mappings (mappingStore s1)) \<subseteq> insert (account_name tx) (dom (Mappings (mappingStore s)))"
      by (simp add: outcome_state_def)
    with Cons.IH [of s1] Inr show ?thesis by auto
  qed
qed

text \<open>
  Claim C6, as stated, fails: two transactions with the account number 1234, one of
  type chequing and one of type savings, share the one entry of the store. The
  operator is asked for the first only and selects account 7; the store then holds the
  single key 1234, and the second transaction is given account 7 through it.
\<close>

theorem shared_mapping_entry_counterexample:
  "map_sum fst (\<lambda>(txs', stats, s). (map AccountID txs', prompts s, dom (Mappings (mappingStore s))))
     (resolve (sample_world (Some ''7'') Written [''1234'']) ''user'' [everyday_account] empty_store None
        [numbered_tx ''1234'' ''chequing'', numbered_tx ''1234'' ''savings'']) =
     Inr ([7, 7], [(''1234'', ''chequing'')], {''1234''}) \<and>
   StatementAccountType (numbered_tx ''1234'' ''chequing'') \<noteq>
   StatementAccountType (numbered_tx ''1234'' ''savings'')"
  by (simp add: run_defs)

text \<open>
  The second loop reads the store at the account name of its transaction only. The
  first loop, on two states that agree on the accounts, on the entry of the store at
  the account name, on the keys asked, on the prompts and on the counts, ends or
  aborts alike and leaves states that agree on them again: no other entry of the
  store is read. It changes no entry of the store but the one at the account name;
  it neither prompts nor writes when that entry names an account of the list; and a
  prompt that succeeds leaves at the account name the name of an account of the
  list.
\<close>

lemma pass2_step_reads_name:
  assumes "Mappings st (account_name tx) = Mappings st' (account_name tx)"
  shows "pass2_step w accts st tx = pass2_step w accts st' tx"
  using assms by (simp add: pass2_step_def FindMapping_def)

lemma view_save_mapping:
  assumes "store_view k s = store_view k t"
  shows "store_view k (save_mapping w s k v) = store_view k (save_mapping w t k v)"
proof -
  have sv: "saves (save_mapping w x k v) = Suc (saves x)" for x
    by (simp add: save_mapping_def split: prod.splits)
  show ?thesis
    using assms by (simp add: store_view_def save_mapping_fields sv)
qed

lemma view_resolve_by_prompt:
  assumes "store_view (account_name tx) s = store_view (account_name tx) t"
  shows "view_outcome (account_name tx) (resolve_by_prompt w u s tx) =
         view_outcome (account_name tx) (resolve_by_prompt w u t tx)"
proof -
  let ?k = "account_name tx"
  from assms have eq: "accounts s = accounts t" "askedMappings s = askedMappings t"
    "prompts s = prompts t" "created s = created t" "saves s = saves t"
    "Mappings (mappingStore s) ?k = Mappings (mappingStore t) ?k"
    by (simp_all add: store_view_def)
  have sm: "store_view ?k (save_mapping w s' ?k v) = store_view ?k (save_mapping w t' ?k v)"
    if "store_view ?k s' = store_view ?k t'" for s' t' v
    using that by (rule view_save_mapping)
  have v1: "store_view ?k (s\<lparr>prompts := p\<rparr>) = store_view ?k (t\<lparr>prompts := p\<rparr>)" for p
    using eq by (simp add: store_view_def)
  have v2: "store_view ?k (s\<lparr>prompts := p, created := c\<rparr>) =
            store_view ?k (t\<lparr>prompts := p, created := c\<rparr>)" for p c
    using eq by (simp add: store_view_def)
  have v3: "store_view ?k (s\<lparr>prompts := p, created := c, accounts := a\<rparr>) =
            store_view ?k (t\<lparr>prompts := p, created := c, accounts := a\<rparr>)" for p c a
    using eq by (simp add: store_view_def)
  have w: "store_view ?k (s'\<lparr>warnings := x\<rparr>) = store_view ?k (t'\<lparr>warnings := y\<rparr>)"
    if "store_view ?k s' = store_view ?k t'" for s' t' x y
    using that by (simp add: store_view_def)
  show ?thesis
    unfolding resolve_by_prompt_def Let_def view_outcome_def
    by (simp add: eq v1 v2 sm [OF v1] sm [OF v3] w [OF sm [OF v1]]
        split: option.splits prod.splits)
qed

lemma view_pass1_step:
  assumes "store_view (account_name tx) s = store_view (account_name tx) t"
  shows "view_outcome (account_name tx) (pass1_step w u s tx) =
         view_outcome (account_name tx) (pass1_step w u t tx)"
proof -
  let ?k = "account_name tx"
  from assms have eq: "accounts s = accounts t" "askedMappings s = askedMappings t"
    "prompts s = prompts t" "created s = created t" "saves s = saves t"
    "Mappings (mappingStore s) ?k = Mappings (mappingStore t) ?k"
    by (simp_all add: store_view_def)
  have fm: "FindMapping (mappingStore s) ?k = FindMapping (mappingStore t) ?k"
    using eq(6) by (simp add: FindMapping_def)
  have m1: "store_view ?k (s\<lparr>askedMappings := a\<rparr>) = store_view ?k (t\<lparr>askedMappings := a\<rparr>)" for a
    using eq by (simp add: store_view_def)
  have m2: "store_view ?k (s\<lparr>askedMappings := a, warnings := x\<rparr>) =
            store_view ?k (t\<lparr>askedMappings := a, warnings := y\<rparr>)" for a x y
    using eq by (simp add: store_view_def)
  have rp: "view_outcome ?k (resolve_by_prompt w u s' tx) =
            view_outcome ?k (resolve_by_prompt w u t' tx)"
    if "store_view ?k s' = store_view ?k t'" for s' t'
    using that by (rule view_resolve_by_prompt)
  show ?thesis
  proof (cases "asked (askedMappings s) (?k @ ''|'' @ StatementAccountType tx)")
    case True
    then show ?thesis using assms eq
      by (simp add: pass1_step_def Let_def view_outcome_def)
  next
    case False
    then show ?thesis
      using eq fm rp [OF m1] rp [OF m2]
      by (simp add: pass1_step_def Let_def findMatchingAccount_def ResolveAccount_def
          split: option.splits)
        (auto simp: view_outcome_def m1 m2)
  qed
qed

lemma resolve_by_prompt_other_keys:
  "k \<noteq> account_name tx \<Longrightarrow>
   Mappings (mappingStore (outcome_state (resolve_by_prompt w u s tx))) k =
   Mappings (mappingStore s) k"
  by (auto simp: resolve_by_prompt_def Let_def outcome_state_def save_mapping_fields
      split: option.splits if_splits prod.splits)

lemma pass1_step_other_keys:
  assumes "k \<noteq> account_name tx"
  shows "Mappings (mappingStore (outcome_state (pass1_step w u s tx))) k =
         Mappings (mappingStore s) k"
proof -
  have a: "Mappings (mappingStore (outcome_state (resolve_by_prompt w u s' tx))) k =
           Mappings (mappingStore s) k"
    if "mappingStore s' = mappingStore s" for s'
    using resolve_by_prompt_other_keys [OF assms, of w u s'] that by simp
  show ?thesis
    unfolding pass1_step_def Let_def
    by (simp add: a outcome_state_def [of "Inr _"] split: option.splits)
qed

lemma pass1_step_mapped:
  assumes "\<not> asked (askedMappings s) (mapping_key tx)"
    and "ResolveAccount w (FindMapping (mappingStore s) (account_name tx)) (accounts s) \<noteq> None"
  shows "pass1_step w u s tx = Inr (s\<lparr>askedMappings := (askedMappings s)(mapping_key tx \<mapsto> True)\<rparr>)"
proof -
  from assms(2) have "FindMapping (mappingStore s) (account_name tx) \<noteq> []"
    by (auto simp: ResolveAccount_def)
  with assms show ?thesis
    by (auto simp: pass1_step_def Let_def mapping_key_def split: option.splits)
qed

lemma resolve_by_prompt_writes_name:
  assumes "resolve_by_prompt w u s tx = Inr s'"
  shows "\<exists>a\<in>set (accounts s'). Mappings (mappingStore s') (account_name tx) = Some (Name a)"
  using assms
  by (auto simp: resolve_by_prompt_def Let_def save_mapping_fields
      split: option.splits if_splits prod.splits dest!: find_Some_set)

text \<open>
  Claim C6, amended. The store is read and written under the account name alone (the
  account number, or \<^verbatim>\<open>Unknown\<close> when it is absent or empty); the account type is no
  part of the key. In the second loop, two transactions with the same account name
  whose name is mapped get the same result whatever their account types, and the
  result depends on the store through the entry at the account name only. In the
  first loop, the step for a transaction depends on the store through the entry at
  its account name only; when the key of name and type was not asked before and that
  entry names an account of the list, the step marks the key and does nothing else;
  the step changes no entry of the store at another key; a prompt that succeeds
  leaves at the account name the name of an account of the list; and the loop adds
  no key to the store but account names of its transactions.
\<close>

theorem store_keyed_by_account_name:
  "(account_name tx1 = account_name tx2 \<and> FindMapping store (account_name tx1) \<noteq> [] \<longrightarrow>
      map_sum id AccountID (pass2_step w accts store tx1) =
      map_sum id AccountID (pass2_step w accts store tx2)) \<and>
   (Mappings st (account_name tx) = Mappings st' (account_name tx) \<longrightarrow>
      pass2_step w accts st tx = pass2_step w accts st' tx) \<and>
   (store_view (account_name tx) s = store_view (account_name tx) t \<longrightarrow>
      view_outcome (account_name tx) (pass1_step w userID s tx) =
      view_outcome (account_name tx) (pass1_step w userID t tx)) \<and>
   (\<not> asked (askedMappings s) (mapping_key tx) \<and>
    ResolveAccount w (FindMapping (mappingStore s) (account_name tx)) (accounts s) \<noteq> None \<longrightarrow>
      pass1_step w userID s tx =
      Inr (s\<lparr>askedMappings := (askedMappings s)(mapping_key tx \<mapsto> True)\<rparr>)) \<and>
   (k \<noteq> account_name tx \<longrightarrow>
      Mappings (mappingStore (outcome_state (pass1_step w userID s tx))) k =
      Mappings (mappingStore s) k) \<and>
   (\<forall>s'. resolve_by_prompt w userID s tx = Inr s' \<longrightarrow>
      (\<exists>a\<in>set (accounts s'). Mappings (mappingStore s') (account_name tx) = Some (Name a))) \<and>
   dom (Mappings (mappingStore (outcome_state (pass1 w userID txs s)))) \<subseteq>
     dom (Mappings (mappingStore s)) \<union> account_name ` set txs"
  using pass2_step_same_name [of tx1 tx2 store w accts]
    pass2_step_reads_name [of st tx st' w accts]
    view_pass1_step [of tx s t w userID]
    pass1_step_mapped [of s tx w userID]
    pass1_step_other_keys [of k tx w userID s]
    resolve_by_prompt_writes_name [of w userID s tx]
    pass1_dom [of w userID txs s]
  by (intro conjI impI allI) blast+

theorem store_keyed_by_account_name_witness:
  "account_name (numbered_tx ''1234'' ''chequing'') = account_name (numbered_tx ''1234'' ''savings'') \<and>
   FindMapping mapped_store (account_name (numbered_tx ''1234'' ''chequing'')) = ''Everyday'' \<and>
   map_sum id AccountID (pass2_step (sample_world None Written []) [everyday_account] mapped_store
      (numbered_tx ''1234'' ''chequing'')) = Inr 7 \<and>
   map_sum id AccountID (pass2_step (sample_world None Written []) [everyday_account] mapped_store
      (numbered_tx ''1234'' ''savings'')) = Inr 7 \<and>
   store_view (account_name (numbered_tx ''1234'' ''savings''))
      (initial_state [everyday_account] mapped_store None) =
   store_view (account_name (numbered_tx ''1234'' ''savings''))
      (initial_state [everyday_account] typed_key_store None) \<and>
   Mappings typed_key_store (mapping_key (numbered_tx ''1234'' ''savings'')) = Some ''Nowhere'' \<and>
   Mappings mapped_store (mapping_key (numbered_tx ''1234'' ''savings'')) = None \<and>
   view_outcome (account_name (numbered_tx ''1234'' ''savings''))
      (pass1_step (sample_world None Written []) ''user''
         (initial_state [everyday_account] typed_key_store None) (numbered_tx ''1234'' ''savings'')) =
   view_outcome (account_name (numbered_tx ''1234'' ''savings''))
      (pass1_step (sample_world None Written []) ''user''
         (initial_state [everyday_account] mapped_store None) (numbered_tx ''1234'' ''savings'')) \<and>
   pass1_step (sample_world None Written []) ''user''
      (initial_state [everyday_account] mapped_store None) (numbered_tx ''1234'' ''savings'') =
   Inr ((initial_state [everyday_account] mapped_store None)
          \<lparr>askedMappings := [''1234|savings'' \<mapsto> True]\<rparr>)"
proof -
  let ?w = "sample_world None Written []"
  let ?tx = "numbered_tx ''1234'' ''savings''"
  let ?s = "initial_state [everyday_account] mapped_store None"
  let ?t = "initial_state [everyday_account] typed_key_store None"
  note keyed = store_keyed_by_account_name
    [of "numbered_tx ''1234'' ''chequing''" ?tx mapped_store ?w "[everyday_account]"
        "mapped_store" ?tx "mapped_store" ?s ?t "''user''" "''other''" "[]"]
  have a: "account_name (numbered_tx ''1234'' ''chequing'') = account_name ?tx"
    by (simp add: account_name_def numbered_tx_def)
  have b: "FindMapping mapped_store (account_name (numbered_tx ''1234'' ''chequing'')) = ''Everyday''"
    by (simp add: FindMapping_def mapped_store_def account_name_def numbered_tx_def)
  have c: "map_sum id AccountID (pass2_step ?w [everyday_account] mapped_store
      (numbered_tx ''1234'' ''chequing'')) = Inr 7"
    by (simp add: run_defs mapped_store_def)
  from b have b': "FindMapping mapped_store (account_name (numbered_tx ''1234'' ''chequing'')) \<noteq> []"
    by simp
  from keyed [THEN conjunct1, rule_format, OF conjI, OF a b'] c
  have d: "map_sum id AccountID (pass2_step ?w [everyday_account] mapped_store ?tx) = Inr 7"
    by simp
  have e: "store_view (account_name ?tx) ?s = store_view (account_name ?tx) ?t"
    by (simp add: store_view_def initial_state_def typed_key_store_def mapped_store_def
        account_name_def numbered_tx_def)
  have f: "Mappings typed_key_store (mapping_key ?tx) = Some ''Nowhere''"
    "Mappings mapped_store (mapping_key ?tx) = None"
    by (simp_all add: typed_key_store_def mapped_store_def mapping_key_def account_name_def
        numbered_tx_def)
  from keyed [THEN conjunct2, THEN conjunct2, THEN conjunct1, rule_format, OF e]
  have g: "view_outcome (account_name ?tx) (pass1_step ?w ''user'' ?s ?tx) =
           view_outcome (account_name ?tx) (pass1_step ?w ''user'' ?t ?tx)" .
  have h1: "\<not> asked (askedMappings ?s) (mapping_key ?tx)"
    by (simp add: asked_def initial_state_def)
  have h2: "ResolveAccount ?w (FindMapping (mappingStore ?s) (account_name ?tx)) (accounts ?s) \<noteq> None"
    by (simp add: run_defs mapped_store_def)
  from keyed [THEN conjunct2, THEN conjunct2, THEN conjunct2, THEN conjunct1, rule_format,
      OF conjI, OF h1 h2]
  have h: "pass1_step ?w ''user'' ?s ?tx =
      Inr (?s\<lparr>askedMappings := [''1234|savings'' \<mapsto> True]\<rparr>)"
    by (simp add: mapping_key_def account_name_def numbered_tx_def initial_state_def)
  from a b c d e f g [symmetric] h show ?thesis by (intro conjI)
qed

text \<open>
  Whatever the file system answers, \<^verbatim>\<open>AddMapping\<close> leaves the new association in
  the map in memory, and \<^verbatim>\<open>main\<close> adds a warning exactly when \<^verbatim>\<open>AddMapping\<close>
  returns an error. The first loop goes on as if every \<^verbatim>\<open>Save\<close> had succeeded: it
  ends or aborts alike, with the same accounts, store, asked keys and prompts.
\<close>

lemma memory_save_mapping:
  "memory s = memory t \<Longrightarrow>
   memory (save_mapping w s k v) = memory (save_mapping (w\<lparr>save_io := f, save_order := g\<rparr>) t k v)"
  by (simp add: memory_def save_mapping_fields)

lemma memory_resolve_by_prompt:
  assumes "memory s = memory t"
  shows "memory_outcome (resolve_by_prompt w u s tx) =
         memory_outcome (resolve_by_prompt (w\<lparr>save_io := f, save_order := g\<rparr>) u t tx)"
proof -
  from assms have eq: "accounts s = accounts t" "mappingStore s = mappingStore t"
    "askedMappings s = askedMappings t" "prompts s = prompts t" "created s = created t"
    by (simp_all add: memory_def)
  show ?thesis
    unfolding resolve_by_prompt_def Let_def memory_outcome_def
    by (simp add: eq PromptForAccountMapping_def Let_def memory_def save_mapping_fields
        split: option.splits prod.splits)
qed

lemma memory_pass1_step:
  assumes "memory s = memory t"
  shows "memory_outcome (pass1_step w u s tx) =
         memory_outcome (pass1_step (w\<lparr>save_io := f, save_order := g\<rparr>) u t tx)"
proof -
  from assms have eq: "accounts s = accounts t" "mappingStore s = mappingStore t"
    "askedMappings s = askedMappings t" "prompts s = prompts t" "created s = created t"
    by (simp_all add: memory_def)
  have rp: "memory_outcome (resolve_by_prompt w u s' tx) =
         memory_outcome (resolve_by_prompt (w\<lparr>save_io := f, save_order := g\<rparr>) u t' tx)"
    if "memory s' = memory t'" for s' t'
    using that by (rule memory_resolve_by_prompt)
  have m1: "memory (s\<lparr>askedMappings := a\<rparr>) = memory (t\<lparr>askedMappings := a\<rparr>)" for a
    using eq by (simp add: memory_def)
  have m2: "memory (s\<lparr>askedMappings := a, warnings := x\<rparr>) = memory (t\<lparr>askedMappings := a, warnings := y\<rparr>)" for a x y
    using eq by (simp add: memory_def)
  show ?thesis
  proof (cases "asked (askedMappings s) (account_name tx @ ''|'' @ StatementAccountType tx)")
    case True
    then show ?thesis using assms eq
      by (simp add: pass1_step_def Let_def memory_outcome_def)
  next
    case False
    then show ?thesis
      using eq rp [OF m1] rp [OF m2]
      by (simp add: pass1_step_def Let_def findMatchingAccount_def ResolveAccount_def
          split: option.splits)
        (auto simp: memory_outcome_def m1 m2)
  qed
qed

lemma memory_pass1:
  "memory s = memory t \<Longrightarrow>
   memory_outcome (pass1 w u txs s) =
   memory_outcome (pass1 (w\<lparr>save_io := f, save_order := g\<rparr>) u txs t)"
proof (induction txs arbitrary: s t)
  case Nil
  then show ?case by (simp add: memory_outcome_def)
next
  case (Cons tx txs)
  let ?w' = "w\<lparr>save_io := f, save_order := g\<rparr>"
  have step: "memory_outcome (pass1_step w u s tx) = memory_outcome (pass1_step ?w' u t tx)"
    by (rule memory_pass1_step [OF Cons.prems])
  show ?case
  proof (cases "pass1_step w u s tx")
    case (Inl e)
    with step obtain e' where "pass1_step ?w' u t tx = Inl e'"
      by (cases "pass1_step ?w' u t tx") (auto simp: memory_outcome_def)
    with Inl step show ?thesis by simp
  next
    case (Inr s1)
    with step obtain t1 where t1: "pass1_step ?w' u t tx = Inr t1"
      by (cases "pass1_step ?w' u t tx") (auto simp: memory_outcome_def)
    with Inr step have "memory s1 = memory t1" by (simp add: memory_outcome_def)
    from Cons.IH [OF this] Inr t1 show ?thesis by simp
  qed
qed

lemma AddMapping_memory:
  "Mappings (fst (AddMapping io ks st k v dk)) = (Mappings st)(k \<mapsto> v)"
  "FindMapping (fst (AddMapping io ks st k v dk)) k = v"
  by (simp_all add: AddMapping_def Let_def FindMapping_def)

lemma save_mapping_warnings:
  "warnings (save_mapping w s k v) =
     warnings s @
     (case snd (snd (AddMapping (save_io w (saves s)) (save_order w (saves s)) (mappingStore s)
                       k v (disk s))) of
        None \<Rightarrow> []
      | Some e \<Rightarrow> [SaveMappingFailed e])"
  by (simp add: save_mapping_def split: prod.splits option.splits)

lemma pass1_memory_whatever_save:
  "memory_outcome (pass1 w userID txs s) =
     memory_outcome (pass1 (w\<lparr>save_io := \<lambda>n. Written\<rparr>) userID txs s)"
proof -
  have "memory_outcome (pass1 w userID txs s) =
     memory_outcome (pass1 (w\<lparr>save_io := \<lambda>n. Written, save_order := save_order w\<rparr>) userID txs s)"
    by (rule memory_pass1) simp
  then show ?thesis by simp
qed

text \<open>
  Claim C8 asks that a failure of the persistence step of \<^verbatim>\<open>AddMapping\<close> be reported
  as a warning while the association stays in memory and the run goes on. The
  association stays and the run goes on, and an error that \<^verbatim>\<open>Save\<close> returns becomes
  a warning; but \<^verbatim>\<open>Save\<close> drops the error of its deferred \<^verbatim>\<open>writer.Flush()\<close>, the
  only write to the file when the text fits the buffer. With an empty store and a
  file system whose first write to the created file fails, the run for two
  transactions of account 3802 creates account 5, maps 3802 to it in memory and
  resolves both transactions, logs no warning, and leaves an empty file;
  \<^verbatim>\<open>AddMapping\<close> returns no error there. With every write succeeding the file
  holds the header and the line \<^verbatim>\<open>3802: 3802\<close>, and with \<^verbatim>\<open>os.Create\<close> failing
  \<^verbatim>\<open>AddMapping\<close> returns the error.
\<close>

theorem flush_failure_unreported:
  "map_sum fst (\<lambda>(txs', stats, s). (map AccountID txs', map Id' (accounts s), prompts s,
       Mappings (mappingStore s) ''3802'', warnings s, disk s))
     (resolve (sample_world (Some OptionNewAccount) (WriteFails 0 0) [''3802'']) ''user'' [] empty_store
        None [visa_tx 1, visa_tx 2]) =
     Inr ([5, 5], [5], [(''3802'', ''visa'')], Some ''3802'', [], Some []) \<and>
   AddMapping (WriteFails 0 0) [''3802''] empty_store ''3802'' ''3802'' None =
     (empty_store\<lparr>Mappings := [''3802'' \<mapsto> ''3802'']\<rparr>, Some [], None) \<and>
   AddMapping Written [''3802''] empty_store ''3802'' ''3802'' None =
     (empty_store\<lparr>Mappings := [''3802'' \<mapsto> ''3802'']\<rparr>,
      Some (header_line @ [newline] @ ''3802: 3802'' @ [newline]), None) \<and>
   AddMapping CreateFails [''3802''] empty_store ''3802'' ''3802'' None =
     (empty_store\<lparr>Mappings := [''3802'' \<mapsto> ''3802'']\<rparr>, None, Some CreateFailed)"
proof (intro conjI)
  show "map_sum fst (\<lambda>(txs', stats, s). (map AccountID txs', map Id' (accounts s), prompts s,
       Mappings (mappingStore s) ''3802'', warnings s, disk s))
     (resolve (sample_world (Some OptionNewAccount) (WriteFails 0 0) [''3802'']) ''user'' [] empty_store
        None [visa_tx 1, visa_tx 2]) =
     Inr ([5, 5], [5], [(''3802'', ''visa'')], Some ''3802'', [], Some [])"
    by (simp add: run_defs_unsaved Save_sample_flush)
  show "AddMapping (WriteFails 0 0) [''3802''] empty_store ''3802'' ''3802'' None =
     (empty_store\<lparr>Mappings := [''3802'' \<mapsto> ''3802'']\<rparr>, Some [], None)"
    by (simp add: AddMapping_def empty_store_def Save_sample_flush)
  show "AddMapping Written [''3802''] empty_store ''3802'' ''3802'' None =
     (empty_store\<lparr>Mappings := [''3802'' \<mapsto> ''3802'']\<rparr>,
      Some (header_line @ [newline] @ ''3802: 3802'' @ [newline]), None)"
    by (simp add: AddMapping_def empty_store_def Save_def Save_text_sample)
  show "AddMapping CreateFails [''3802''] empty_store ''3802'' ''3802'' None =
     (empty_store\<lparr>Mappings := [''3802'' \<mapsto> ''3802'']\<rparr>, None, Some CreateFailed)"
    by (simp add: AddMapping_def empty_store_def Save_def)
qed

section \<open>Properties of the CSV rows\<close>

lemma parseCSVRow_ignores_usd:
  assumes "\<forall>name. name \<noteq> ''USD$'' \<longrightarrow> getCol r' ci' name = getCol r ci name"
    and "getCol r ci ''CAD$'' \<noteq> []"
  shows "parseCSVRow lib r' ci' p = parseCSVRow lib r ci p"
proof -
  have eq: "getCol r' ci' ''Account Type'' = getCol r ci ''Account Type''"
    "getCol r' ci' ''Account Number'' = getCol r ci ''Account Number''"
    "getCol r' ci' ''Transaction Date'' = getCol r ci ''Transaction Date''"
    "getCol r' ci' ''Description 1'' = getCol r ci ''Description 1''"
    "getCol r' ci' ''Description 2'' = getCol r ci ''Description 2''"
    "getCol r' ci' ''CAD$'' = getCol r ci ''CAD$''"
    using assms(1) by simp_all
  have pa: "parse_amount lib (getCol r ci ''CAD$'') (getCol r' ci' ''USD$'') =
            parse_amount lib (getCol r ci ''CAD$'') (getCol r ci ''USD$'')"
    using assms(2) by (simp add: parse_amount_def)
  show ?thesis
    unfolding parseCSVRow_def Let_def eq pa by (rule refl)
qed

lemma make_transaction_fields:
  "TxCurrency (make_transaction d a c desc n t p) = c"
  "TxAmount (make_transaction d a c desc n t p) = magnitude a"
  "TxDirection (make_transaction d a c desc n t p) = (if below_zero a then Out else In)"
  by (simp_all add: make_transaction_def Let_def)

lemma parseCSVRow_Some:
  assumes "parseCSVRow lib r ci p = Inr (Some tx)"
  shows "\<exists>a. parse_amount lib (getCol r ci ''CAD$'') (getCol r ci ''USD$'') = Inr (a, TxCurrency tx) \<and>
             TxAmount tx = magnitude a \<and> TxDirection tx = (if below_zero a then Out else In)"
proof (cases "parse_amount lib (getCol r ci ''CAD$'') (getCol r ci ''USD$'')")
  case (Inl err)
  with assms show ?thesis
    by (simp add: parseCSVRow_def Let_def split: if_splits option.splits)
next
  case (Inr ac)
  obtain a c where ac: "ac = (a, c)" by (cases ac)
  from assms Inr ac obtain d desc n t where "tx = make_transaction d a c desc n t p"
    by (auto simp: parseCSVRow_def Let_def split: if_splits option.splits)
  then show ?thesis
    using Inr ac by (simp add: make_transaction_fields)
qed

lemma parseCSVRow_no_amount:
  assumes "getCol r ci ''CAD$'' = []" and "getCol r ci ''USD$'' = []"
  shows "\<exists>e. parseCSVRow lib r ci p = Inl e"
  using assms
  by (auto simp: parseCSVRow_def parse_amount_def Let_def split: option.splits)

lemmas row_defs =
  parseCSVRow_def getCol_def sample_row_def rbc_columns_def sample_lib_def
  parse_amount_def remove_commas_def make_transaction_def is_zero_def below_zero_def
  magnitude_def negate_def ascii_lower_def

lemma sample_row_cad:
  "parseCSVRow sample_lib (sample_row ''1,234.50'' ''-99.00'') rbc_columns ''export.csv'' =
     Inr (Some \<lparr>TxDate = 20, TxAmount = Finite 1234.5, TxCurrency = ''CAD'', TxDirection = In,
                TxDesc = ''PAYROLL'', StatementAccountNumber = Some ''05172-5163878'',
                StatementAccountType = ''chequing'', StatementAccountName = [],
                SourceFilePath = ''export.csv'', AccountID = 0\<rparr>)"
  by (simp add: row_defs trim_eval)

lemma sample_row_usd:
  "parseCSVRow sample_lib (sample_row [] ''-99.00'') rbc_columns ''export.csv'' =
     Inr (Some \<lparr>TxDate = 20, TxAmount = Finite 99, TxCurrency = ''USD'', TxDirection = Out,
                TxDesc = ''PAYROLL'', StatementAccountNumber = Some ''05172-5163878'',
                StatementAccountType = ''chequing'', StatementAccountName = [],
                SourceFilePath = ''export.csv'', AccountID = 0\<rparr>)"
  by (simp add: row_defs trim_eval)

lemma sample_row_none:
  "parseCSVRow sample_lib (sample_row [] '' '') rbc_columns ''export.csv'' = Inl NoAmount"
  by (simp add: row_defs trim_eval)

text \<open>
  Claim C10. A column is empty when nothing is left of it after trimming white space.
  For every row whose \<^verbatim>\<open>CAD$\<close> column is non-empty (so also when both columns
  are), a transaction returned has the currency \<^verbatim>\<open>CAD\<close> and the magnitude and
  direction of the parsed \<^verbatim>\<open>CAD$\<close> column, and the result, error or not, is the
  same for any row that differs in the \<^verbatim>\<open>USD$\<close> column only. When only the
  \<^verbatim>\<open>USD$\<close> column is non-empty, a transaction returned has the currency
  \<^verbatim>\<open>USD\<close> and the amount of that column. When both are empty the row is rejected
  with an error.
\<close>

theorem csv_amount_column:
  "(getCol r ci ''CAD$'' \<noteq> [] \<longrightarrow>
      (\<forall>tx. parseCSVRow lib r ci p = Inr (Some tx) \<longrightarrow>
         TxCurrency tx = ''CAD'' \<and>
         (\<exists>a. ParseFloat lib (remove_commas (getCol r ci ''CAD$'')) = Some a \<and>
              TxAmount tx = magnitude a \<and> TxDirection tx = (if below_zero a then Out else In))) \<and>
      (\<forall>r' ci'. (\<forall>name. name \<noteq> ''USD$'' \<longrightarrow> getCol r' ci' name = getCol r ci name) \<longrightarrow>
         parseCSVRow lib r' ci' p = parseCSVRow lib r ci p)) \<and>
   (getCol r ci ''CAD$'' = [] \<and> getCol r ci ''USD$'' \<noteq> [] \<longrightarrow>
      (\<forall>tx. parseCSVRow lib r ci p = Inr (Some tx) \<longrightarrow>
         TxCurrency tx = ''USD'' \<and>
         (\<exists>a. ParseFloat lib (remove_commas (getCol r ci ''USD$'')) = Some a \<and>
              TxAmount tx = magnitude a \<and> TxDirection tx = (if below_zero a then Out else In)))) \<and>
   (getCol r ci ''CAD$'' = [] \<and> getCol r ci ''USD$'' = [] \<longrightarrow>
      (\<exists>e. parseCSVRow lib r ci p = Inl e))"
proof (intro conjI impI allI)
  fix tx
  assume "getCol r ci ''CAD$'' \<noteq> []" and "parseCSVRow lib r ci p = Inr (Some tx)"
  with parseCSVRow_Some [of lib r ci p tx]
  show "TxCurrency tx = ''CAD''"
    and "\<exists>a. ParseFloat lib (remove_commas (getCol r ci ''CAD$'')) = Some a \<and>
              TxAmount tx = magnitude a \<and> TxDirection tx = (if below_zero a then Out else In)"
    by (auto simp: parse_amount_def split: option.splits)
next
  fix r' ci'
  assume "getCol r ci ''CAD$'' \<noteq> []"
    and "\<forall>name. name \<noteq> ''USD$'' \<longrightarrow> getCol r' ci' name = getCol r ci name"
  then show "parseCSVRow lib r' ci' p = parseCSVRow lib r ci p"
    by (intro parseCSVRow_ignores_usd)
next
  fix tx
  assume "getCol r ci ''CAD$'' = [] \<and> getCol r ci ''USD$'' \<noteq> []"
    and "parseCSVRow lib r ci p = Inr (Some tx)"
  with parseCSVRow_Some [of lib r ci p tx]
  show "TxCurrency tx = ''USD''"
    and "\<exists>a. ParseFloat lib (remove_commas (getCol r ci ''USD$'')) = Some a \<and>
              TxAmount tx = magnitude a \<and> TxDirection tx = (if below_zero a then Out else In)"
    by (auto simp: parse_amount_def split: option.splits)
next
  assume "getCol r ci ''CAD$'' = [] \<and> getCol r ci ''USD$'' = []"
  then show "\<exists>e. parseCSVRow lib r ci p = Inl e"
    using parseCSVRow_no_amount by blast
qed

theorem csv_amount_column_witness:
  "getCol (sample_row ''1,234.50'' ''-99.00'') rbc_columns ''CAD$'' \<noteq> [] \<and>
   getCol (sample_row ''1,234.50'' ''-99.00'') rbc_columns ''USD$'' \<noteq> [] \<and>
   parseCSVRow sample_lib (sample_row ''1,234.50'' ''-99.00'') rbc_columns ''export.csv'' =
     Inr (Some \<lparr>TxDate = 20, TxAmount = Finite 1234.5, TxCurrency = ''CAD'', TxDirection = In,
                TxDesc = ''PAYROLL'', StatementAccountNumber = Some ''05172-5163878'',
                StatementAccountType = ''chequing'', StatementAccountName = [],
                SourceFilePath = ''export.csv'', AccountID = 0\<rparr>) \<and>
   parseCSVRow sample_lib (sample_row ''1,234.50'' ''7.25'') rbc_columns ''export.csv'' =
     parseCSVRow sample_lib (sample_row ''1,234.50'' ''-99.00'') rbc_columns ''export.csv'' \<and>
   parseCSVRow sample_lib (sample_row [] ''-99.00'') rbc_columns ''export.csv'' =
     Inr (Some \<lparr>TxDate = 20, TxAmount = Finite 99, TxCurrency = ''USD'', TxDirection = Out,
                TxDesc = ''PAYROLL'', StatementAccountNumber = Some ''05172-5163878'',
                StatementAccountType = ''chequing'', StatementAccountName = [],
                SourceFilePath = ''export.csv'', AccountID = 0\<rparr>) \<and>
   parseCSVRow sample_lib (sample_row [] '' '') rbc_columns ''export.csv'' = Inl NoAmount"
proof -
  have cad: "getCol (sample_row ''1,234.50'' ''-99.00'') rbc_columns ''CAD$'' \<noteq> []"
    and usd: "getCol (sample_row ''1,234.50'' ''-99.00'') rbc_columns ''USD$'' \<noteq> []"
    by (simp_all add: getCol_def sample_row_def rbc_columns_def trim_eval)
  have same: "getCol (sample_row ''1,234.50'' ''7.25'') rbc_columns name =
      getCol (sample_row ''1,234.50'' ''-99.00'') rbc_columns name" if "name \<noteq> ''USD$''" for name
    using that by (simp add: getCol_def sample_row_def rbc_columns_def)
  from csv_amount_column [THEN conjunct1, rule_format, OF cad, THEN conjunct2, rule_format, OF same]
  have "parseCSVRow sample_lib (sample_row ''1,234.50'' ''7.25'') rbc_columns ''export.csv'' =
     parseCSVRow sample_lib (sample_row ''1,234.50'' ''-99.00'') rbc_columns ''export.csv''" .
  with cad usd sample_row_cad sample_row_usd sample_row_none show ?thesis by (intro conjI)
qed

end
